theory Spec2Isabelle
  imports Main "HOL-Library.AList"
begin

section \<open>The scraper worker (src/worker/scraper.py)\<close>

text \<open>
  The module is a wrapper around a browser automation engine. The engine, the clock and the
  scheduler of the event loop are outside the program: every answer they give is a parameter of
  the model (an environment record), and every theorem holds for all environments. An engine
  call either returns a value or raises; a raised exception is \<open>Inl\<close>, a returned value
  \<open>Inr\<close>. The exceptions are instances of Python's \<open>Exception\<close> (the engine's errors and
  timeouts), the ones \<open>except Exception\<close> catches.
\<close>

subsection \<open>Python values\<close>

datatype exn = Exception string

text \<open>\<open>str(e)\<close>: the message of an exception.\<close>

fun str :: "exn \<Rightarrow> string" where
  "str (Exception m) = m"

text \<open>
  The values the result dictionaries hold. A dictionary is an association list in insertion
  order; \<open>d[k] = v\<close> replaces the value of an existing key in place and appends a new key.
\<close>

datatype pyval =
    PyNone
  | PyStr string
  | PyInt int
  | PyBool bool
  | PyDict "(string \<times> pyval) list"

type_synonym pydict = "(string \<times> pyval) list"

definition setitem :: "pydict \<Rightarrow> string \<Rightarrow> pyval \<Rightarrow> pydict" where
  "setitem d k v = AList.update k v d"

definition getitem :: "pydict \<Rightarrow> string \<Rightarrow> pyval option" where
  "getitem d k = map_of d k"

definition keys :: "pydict \<Rightarrow> string list" where
  "keys d = map fst d"

text \<open>An \<open>Optional[str]\<close> as a dictionary value.\<close>

fun opt_str :: "string option \<Rightarrow> pyval" where
  "opt_str None = PyNone"
| "opt_str (Some s) = PyStr s"

text \<open>Truth value of an \<open>Optional[str]\<close>: \<open>None\<close> and the empty string are false.\<close>

fun truthy :: "string option \<Rightarrow> bool" where
  "truthy None = False"
| "truthy (Some s) = (s \<noteq> [])"

subsection \<open>The engine\<close>

text \<open>
  Objects of the engine (driver, browser, context, page) are handles. The trace lists the
  life-cycle calls made on the engine, in the order they are made; a call is listed when it
  is made, whether it then returns or raises.
\<close>

type_synonym handle = nat

datatype call =
    StartDriver
  | Launch handle bool
  | NewContext handle
  | NewPage handle
  | ClosePage handle
  | CloseContext handle
  | CloseBrowser handle
  | StopDriver handle

type_synonym trace = "call list"

text \<open>What the engine answers while a session is opened.\<close>

record open_env =
  start :: "exn + handle"
  launch :: "bool \<Rightarrow> exn + handle"
  new_context :: "exn + handle"

text \<open>What the engine answers while a session is closed.\<close>

record close_env =
  context_close :: "exn + unit"
  browser_close :: "exn + unit"
  playwright_stop :: "exn + unit"

text \<open>An element handle: \<open>get_attribute\<close> returns the value, \<open>None\<close>, or raises.\<close>

type_synonym element = "string \<Rightarrow> exn + string option"

text \<open>
  What the clock and the engine answer during one call of \<open>scrape\<close>. \<open>goto\<close> returns the
  status of the response, or \<open>None\<close> when there is no response object.
\<close>

record page_env =
  utcnow :: string
  reopen :: open_env
  new_page :: "exn + handle"
  set_default_timeout :: "int \<Rightarrow> exn + unit"
  goto :: "string \<Rightarrow> exn + int option"
  page_url :: string
  wait_for_selector :: "string \<Rightarrow> exn + unit"
  page_content :: "exn + string"
  page_title :: "exn + string"
  query_selector_all :: "string \<Rightarrow> exn + element list"
  query_selector :: "string \<Rightarrow> exn + element option"
  page_close :: "exn + unit"

subsection \<open>class WebScraper\<close>

text \<open>
  The attribute \<open>playwright\<close> does not exist before \<open>_initialize_browser\<close> assigns it
  (\<open>hasattr\<close> is false): that is \<open>None\<close> here.
\<close>

record WebScraper =
  headless :: bool
  timeout :: int
  browser :: "handle option"
  context' :: "handle option"
  playwright :: "handle option"

definition init :: "bool \<Rightarrow> int \<Rightarrow> WebScraper" where
  "init h t = \<lparr>headless = h, timeout = t, browser = None, context' = None, playwright = None\<rparr>"

text \<open>
  \<open>_initialize_browser\<close>: three engine calls, each assigned to its attribute as soon as it
  returns, so an exception leaves the attributes assigned so far.
\<close>

definition initialize_browser ::
  "open_env \<Rightarrow> WebScraper \<Rightarrow> trace \<Rightarrow> (exn + unit) \<times> WebScraper \<times> trace" where
  "initialize_browser oe self tr =
     (case start oe of
        Inl e \<Rightarrow> (Inl e, self, tr @ [StartDriver])
      | Inr pw \<Rightarrow>
          (let self1 = self\<lparr>playwright := Some pw\<rparr>;
               tr1 = tr @ [StartDriver, Launch pw (headless self1)]
           in case launch oe (headless self1) of
                Inl e \<Rightarrow> (Inl e, self1, tr1)
              | Inr b \<Rightarrow>
                  (let self2 = self1\<lparr>browser := Some b\<rparr>;
                       tr2 = tr1 @ [NewContext b]
                   in case new_context oe of
                        Inl e \<Rightarrow> (Inl e, self2, tr2)
                      | Inr c \<Rightarrow> (Inr (), self2\<lparr>context' := Some c\<rparr>, tr2))))"

text \<open>\<open>__aenter__\<close>: initialise, return \<open>self\<close>.\<close>

definition aenter ::
  "open_env \<Rightarrow> WebScraper \<Rightarrow> trace \<Rightarrow> (exn + unit) \<times> WebScraper \<times> trace" where
  "aenter oe self tr = initialize_browser oe self tr"

text \<open>
  \<open>close\<close>: three \<open>try\<close> blocks, each with \<open>except Exception: pass\<close>. The result type keeps
  the exception branch, so that returning normally is a property to prove.
\<close>

definition suppress :: "exn + unit \<Rightarrow> exn + unit" where
  "suppress r = (case r of Inl e \<Rightarrow> Inr () | Inr u \<Rightarrow> Inr u)"

definition close_context :: "close_env \<Rightarrow> WebScraper \<Rightarrow> trace \<Rightarrow> (exn + unit) \<times> trace" where
  "close_context ce self tr =
     (case context' self of
        None \<Rightarrow> (Inr (), tr)
      | Some c \<Rightarrow> (suppress (context_close ce), tr @ [CloseContext c]))"

definition close_browser :: "close_env \<Rightarrow> WebScraper \<Rightarrow> trace \<Rightarrow> (exn + unit) \<times> trace" where
  "close_browser ce self tr =
     (case browser self of
        None \<Rightarrow> (Inr (), tr)
      | Some b \<Rightarrow> (suppress (browser_close ce), tr @ [CloseBrowser b]))"

definition stop_playwright :: "close_env \<Rightarrow> WebScraper \<Rightarrow> trace \<Rightarrow> (exn + unit) \<times> trace" where
  "stop_playwright ce self tr =
     (case playwright self of
        None \<Rightarrow> (Inr (), tr)
      | Some p \<Rightarrow> (suppress (playwright_stop ce), tr @ [StopDriver p]))"

definition close :: "close_env \<Rightarrow> WebScraper \<Rightarrow> trace \<Rightarrow> (exn + unit) \<times> WebScraper \<times> trace" where
  "close ce self tr =
     (case close_context ce self tr of
        (Inl e, tr1) \<Rightarrow> (Inl e, self, tr1)
      | (Inr _, tr1) \<Rightarrow>
          (case close_browser ce self tr1 of
             (Inl e, tr2) \<Rightarrow> (Inl e, self, tr2)
           | (Inr _, tr2) \<Rightarrow>
               (case stop_playwright ce self tr2 of
                  (Inl e, tr3) \<Rightarrow> (Inl e, self, tr3)
                | (Inr _, tr3) \<Rightarrow> (Inr (), self, tr3))))"

subsection \<open>Metadata extraction\<close>

fun text_of :: "string option \<Rightarrow> string" where
  "text_of None = []"
| "text_of (Some s) = s"

text \<open>The body of the loop over the meta tags, after the three attribute reads.\<close>

definition store_tag ::
  "string option \<Rightarrow> string option \<Rightarrow> string option \<Rightarrow> pydict \<Rightarrow> pydict" where
  "store_tag name property_attr cont metadata =
     (if truthy name \<and> truthy cont then
        setitem metadata (text_of name) (PyStr (text_of cont))
      else if truthy property_attr \<and> truthy cont then
        setitem metadata (text_of property_attr) (PyStr (text_of cont))
      else metadata)"

text \<open>
  The loop. A raised exception leaves the loop with the dictionary as it is at that moment:
  the first component is the exception, the second the dictionary.
\<close>

fun collect_tags :: "element list \<Rightarrow> pydict \<Rightarrow> exn option \<times> pydict" where
  "collect_tags [] metadata = (None, metadata)"
| "collect_tags (m # ms) metadata =
     (case m ''name'' of
        Inl e \<Rightarrow> (Some e, metadata)
      | Inr name \<Rightarrow>
          (case m ''property'' of
             Inl e \<Rightarrow> (Some e, metadata)
           | Inr property_attr \<Rightarrow>
               (case m ''content'' of
                  Inl e \<Rightarrow> (Some e, metadata)
                | Inr cont \<Rightarrow> collect_tags ms (store_tag name property_attr cont metadata))))"

definition canonical_selector :: string where
  \<open>canonical_selector = ''link[rel="canonical"]''\<close>

definition canonical_link :: "page_env \<Rightarrow> pydict \<Rightarrow> exn option \<times> pydict" where
  "canonical_link env metadata =
     (case query_selector env canonical_selector of
        Inl e \<Rightarrow> (Some e, metadata)
      | Inr None \<Rightarrow> (None, metadata)
      | Inr (Some canonical) \<Rightarrow>
          (case canonical ''href'' of
             Inl e \<Rightarrow> (Some e, metadata)
           | Inr href \<Rightarrow> (None, setitem metadata ''canonical'' (opt_str href))))"

definition language :: "page_env \<Rightarrow> pydict \<Rightarrow> exn option \<times> pydict" where
  "language env metadata =
     (case query_selector env ''html'' of
        Inl e \<Rightarrow> (Some e, metadata)
      | Inr None \<Rightarrow> (None, metadata)
      | Inr (Some html_element) \<Rightarrow>
          (case html_element ''lang'' of
             Inl e \<Rightarrow> (Some e, metadata)
           | Inr lang \<Rightarrow>
               (None, if truthy lang then setitem metadata ''language'' (PyStr (text_of lang))
                      else metadata)))"

text \<open>The \<open>try\<close> block of \<open>_extract_metadata\<close>: the exception raised, if any, and the dictionary.\<close>

definition extract_try :: "page_env \<Rightarrow> exn option \<times> pydict" where
  "extract_try env =
     (case query_selector_all env ''meta'' of
        Inl e \<Rightarrow> (Some e, [])
      | Inr meta_tags \<Rightarrow>
          (case collect_tags meta_tags [] of
             (Some e, metadata) \<Rightarrow> (Some e, metadata)
           | (None, metadata) \<Rightarrow>
               (case canonical_link env metadata of
                  (Some e, metadata1) \<Rightarrow> (Some e, metadata1)
                | (None, metadata1) \<Rightarrow> language env metadata1)))"

text \<open>\<open>_extract_metadata\<close>: the handler records the message and the dictionary is returned.\<close>

definition extract_metadata :: "page_env \<Rightarrow> pydict" where
  "extract_metadata env =
     (case extract_try env of
        (None, metadata) \<Rightarrow> metadata
      | (Some e, metadata) \<Rightarrow> setitem metadata ''extraction_error'' (PyStr (str e)))"

subsection \<open>WebScraper.scrape\<close>

definition new_result :: "string \<Rightarrow> string \<Rightarrow> pydict" where
  "new_result url ts =
     [(''url'', PyStr url), (''html'', PyNone), (''title'', PyNone), (''meta'', PyDict []),
      (''status_code'', PyNone), (''timestamp'', PyStr ts), (''success'', PyBool False),
      (''error'', PyNone)]"

text \<open>The first statement of \<open>scrape\<close>: initialise when browser or context is unset.\<close>

definition lazy_open ::
  "open_env \<Rightarrow> WebScraper \<Rightarrow> trace \<Rightarrow> (exn + unit) \<times> WebScraper \<times> trace" where
  "lazy_open oe self tr =
     (if browser self = None \<or> context' self = None then initialize_browser oe self tr
      else (Inr (), self, tr))"

text \<open>Content, title, metadata, success: the end of the \<open>try\<close> block.\<close>

definition extract_page :: "page_env \<Rightarrow> pydict \<Rightarrow> exn option \<times> pydict" where
  "extract_page env result =
     (case page_content env of
        Inl e \<Rightarrow> (Some e, result)
      | Inr h \<Rightarrow>
          (let result1 = setitem result ''html'' (PyStr h)
           in case page_title env of
                Inl e \<Rightarrow> (Some e, result1)
              | Inr t \<Rightarrow>
                  (let result2 = setitem result1 ''title'' (PyStr t);
                       result3 = setitem result2 ''meta'' (PyDict (extract_metadata env))
                   in (None, setitem result3 ''success'' (PyBool True)))))"

text \<open>\<open>if wait_for_selector: await page.wait_for_selector(wait_for_selector)\<close>\<close>

fun wait_if :: "page_env \<Rightarrow> string option \<Rightarrow> exn + unit" where
  "wait_if env None = Inr ()"
| "wait_if env (Some s) = (if s = [] then Inr () else wait_for_selector env s)"

definition navigate ::
  "page_env \<Rightarrow> string \<Rightarrow> string option \<Rightarrow> pydict \<Rightarrow> exn option \<times> pydict" where
  "navigate env url sel result =
     (case goto env url of
        Inl e \<Rightarrow> (Some e, result)
      | Inr response \<Rightarrow>
          (let result1 =
                 (case response of
                    None \<Rightarrow> result
                  | Some status \<Rightarrow>
                      setitem (setitem result ''status_code'' (PyInt status))
                        ''url'' (PyStr (page_url env)))
           in case wait_if env sel of
                Inl e \<Rightarrow> (Some e, result1)
              | Inr _ \<Rightarrow> extract_page env result1))"

text \<open>
  The \<open>try\<close> block of \<open>scrape\<close>: the exception raised, if any, the result dictionary and the
  variable \<open>page\<close> as they are when the block is left, and the trace. Were the context
  \<open>None\<close>, \<open>self.context.new_page()\<close> would raise an \<open>AttributeError\<close> inside the block
  (its message is shortened here); after the first statement of \<open>scrape\<close> the context is set.
\<close>

definition scrape_try ::
  "page_env \<Rightarrow> WebScraper \<Rightarrow> string \<Rightarrow> string option \<Rightarrow> pydict \<Rightarrow> trace
     \<Rightarrow> exn option \<times> pydict \<times> handle option \<times> trace" where
  "scrape_try env self url sel result tr =
     (case context' self of
        None \<Rightarrow> (Some (Exception ''AttributeError''), result, None, tr)
      | Some c \<Rightarrow>
          (case new_page env of
             Inl e \<Rightarrow> (Some e, result, None, tr @ [NewPage c])
           | Inr page \<Rightarrow>
               (case set_default_timeout env (timeout self) of
                  Inl e \<Rightarrow> (Some e, result, Some page, tr @ [NewPage c])
                | Inr _ \<Rightarrow>
                    (case navigate env url sel result of
                       (exc, result1) \<Rightarrow> (exc, result1, Some page, tr @ [NewPage c])))))"

text \<open>The \<open>except\<close> clause.\<close>

definition handle_exc :: "exn option \<Rightarrow> pydict \<Rightarrow> pydict" where
  "handle_exc exc result =
     (case exc of
        None \<Rightarrow> result
      | Some e \<Rightarrow> setitem (setitem result ''error'' (PyStr (str e))) ''success'' (PyBool False))"

text \<open>The \<open>finally\<close> clause: the page is closed when there is one; a failure is passed over.\<close>

definition finally_close :: "page_env \<Rightarrow> handle option \<Rightarrow> trace \<Rightarrow> (exn + unit) \<times> trace" where
  "finally_close env page tr =
     (case page of
        None \<Rightarrow> (Inr (), tr)
      | Some p \<Rightarrow> (suppress (page_close env), tr @ [ClosePage p]))"

definition scrape ::
  "page_env \<Rightarrow> WebScraper \<Rightarrow> trace \<Rightarrow> string \<Rightarrow> string option
     \<Rightarrow> (exn + pydict) \<times> WebScraper \<times> trace" where
  "scrape env self tr url sel =
     (case lazy_open (reopen env) self tr of
        (Inl e, self1, tr1) \<Rightarrow> (Inl e, self1, tr1)
      | (Inr _, self1, tr1) \<Rightarrow>
          (case scrape_try env self1 url sel (new_result url (utcnow env)) tr1 of
             (exc, result1, page, tr2) \<Rightarrow>
               (case finally_close env page tr2 of
                  (Inl e, tr3) \<Rightarrow> (Inl e, self1, tr3)
                | (Inr _, tr3) \<Rightarrow> (Inr (handle_exc exc result1), self1, tr3))))"

text \<open>
  \<open>__aexit__\<close>: close, then return \<open>False\<close>, so the outcome of the block (its value or its
  exception) is the outcome of the \<open>async with\<close> statement.
\<close>

definition aexit :: "close_env \<Rightarrow> WebScraper \<Rightarrow> trace \<Rightarrow> exn + 'a \<Rightarrow> exn + 'a" where
  "aexit ce self tr r =
     (case close ce self tr of
        (Inl e, self1, tr1) \<Rightarrow> Inl e
      | (Inr _, self1, tr1) \<Rightarrow> r)"

subsection \<open>scrape_url\<close>

definition scrape_url ::
  "open_env \<Rightarrow> page_env \<Rightarrow> close_env \<Rightarrow> string \<Rightarrow> bool \<Rightarrow> string option \<Rightarrow> exn + pydict" where
  "scrape_url oe env ce url h sel =
     (case aenter oe (init h 30000) [] of
        (Inl e, scraper, tr) \<Rightarrow> Inl e
      | (Inr _, scraper, tr) \<Rightarrow>
          (case scrape env scraper tr url sel of
             (r, scraper1, tr1) \<Rightarrow> aexit ce scraper1 tr1 r))"

subsection \<open>scrape_urls_batch\<close>

text \<open>
  The tasks \<open>scrape_with_limit(url)\<close> run interleaved on one event loop. A task waits for the
  semaphore, then holds it while \<open>scraper.scrape(url)\<close> runs (the page it opens is opened and
  closed inside that call), then releases it and is finished with the value or the exception
  of the call. The semaphore is its counter: acquiring takes one when the counter is positive
  and is blocked otherwise, releasing gives one back.
\<close>

datatype phase = Waiting | Active | Done pydict | Failed exn

type_synonym task = "string \<times> phase"

text \<open>
  \<open>raised\<close> is the first exception a task has raised, which is what \<open>gather\<close> raises.
\<close>

record batch =
  scraper :: WebScraper
  permits :: nat
  tasks :: "task list"
  raised :: "exn option"
  calls :: trace

text \<open>
  One step of task \<open>i\<close>; \<open>None\<close> when the task cannot move (it is finished, or it waits and
  the counter is zero). The page environment of the \<open>i\<close>-th task is \<open>envs i\<close>.
\<close>

definition step :: "(nat \<Rightarrow> page_env) \<Rightarrow> nat \<Rightarrow> batch \<Rightarrow> batch option" where
  "step envs i b =
     (if i < length (tasks b) then
        (case tasks b ! i of
           (url, Waiting) \<Rightarrow>
             (if 0 < permits b then
                Some (b\<lparr>permits := permits b - 1, tasks := (tasks b)[i := (url, Active)]\<rparr>)
              else None)
         | (url, Active) \<Rightarrow>
             (case scrape (envs i) (scraper b) (calls b) url None of
                (Inl e, scraper1, tr1) \<Rightarrow>
                  Some (b\<lparr>scraper := scraper1, permits := permits b + 1,
                          tasks := (tasks b)[i := (url, Failed e)],
                          raised := (case raised b of None \<Rightarrow> Some e | Some e0 \<Rightarrow> Some e0),
                          calls := tr1\<rparr>)
              | (Inr r, scraper1, tr1) \<Rightarrow>
                  Some (b\<lparr>scraper := scraper1, permits := permits b + 1,
                          tasks := (tasks b)[i := (url, Done r)], calls := tr1\<rparr>))
         | (url, Done r) \<Rightarrow> None
         | (url, Failed e) \<Rightarrow> None)
      else None)"

text \<open>
  A schedule is the list of the tasks the event loop resumes, in order. A schedule that
  resumes a task which cannot move describes no execution.
\<close>

fun run :: "(nat \<Rightarrow> page_env) \<Rightarrow> nat list \<Rightarrow> batch \<Rightarrow> batch option" where
  "run envs [] b = Some b"
| "run envs (i # sched) b =
     (case step envs i b of None \<Rightarrow> None | Some b1 \<Rightarrow> run envs sched b1)"

fun result_of :: "task \<Rightarrow> pydict option" where
  "result_of (url, Done r) = Some r"
| "result_of (url, ph) = None"

text \<open>
  \<open>asyncio.gather\<close>: raises the first exception raised by a task; otherwise, once every task
  is finished, returns their values in the order of the tasks; \<open>None\<close> while it waits.
\<close>

definition gather :: "batch \<Rightarrow> (exn + pydict list) option" where
  "gather b =
     (case raised b of
        Some e \<Rightarrow> Some (Inl e)
      | None \<Rightarrow> map_option Inr (those (map result_of (tasks b))))"

definition count_active :: "task list \<Rightarrow> nat" where
  "count_active ts = length (filter (\<lambda>t. snd t = Active) ts)"

definition start_batch :: "WebScraper \<Rightarrow> trace \<Rightarrow> string list \<Rightarrow> nat \<Rightarrow> batch" where
  "start_batch self tr urls k =
     \<lparr>scraper = self, permits = k, tasks = map (\<lambda>url. (url, Waiting)) urls, raised = None,
      calls = tr\<rparr>"

text \<open>
  The batch under a schedule: \<open>None\<close> when the call has not returned at the end of the
  schedule. \<open>asyncio.Semaphore\<close> refuses a negative value.
\<close>

definition scrape_urls_batch ::
  "open_env \<Rightarrow> (nat \<Rightarrow> page_env) \<Rightarrow> close_env \<Rightarrow> nat list \<Rightarrow> string list \<Rightarrow> bool \<Rightarrow> int
     \<Rightarrow> (exn + pydict list) option" where
  "scrape_urls_batch oe envs ce sched urls h max_concurrent =
     (case aenter oe (init h 30000) [] of
        (Inl e, self, tr) \<Rightarrow> Some (Inl e)
      | (Inr _, self, tr) \<Rightarrow>
          (if max_concurrent < 0 then
             Some (aexit ce self tr (Inl (Exception ''Semaphore initial value must be >= 0'')))
           else
             (case run envs sched (start_batch self tr urls (nat max_concurrent)) of
                None \<Rightarrow> None
              | Some b \<Rightarrow>
                  (case gather b of
                     None \<Rightarrow> None
                   | Some r \<Rightarrow> Some (aexit ce (scraper b) (calls b) r)))))"

subsection \<open>The keys of a result, and example sessions and pages\<close>

text \<open>The keys of the dictionary literal in \<open>scrape\<close>, in its order.\<close>

definition result_keys :: "string list" where
  "result_keys = [''url'', ''html'', ''title'', ''meta'', ''status_code'', ''timestamp'',
                        ''success'', ''error'']"

text \<open>An engine that starts, a session that is open, and a page that loads.\<close>

definition engine_up :: open_env where
  "engine_up = \<lparr>start = Inr 10, launch = (\<lambda>h. Inr 11), new_context = Inr 12\<rparr>"

definition open_scraper :: WebScraper where
  "open_scraper =
     \<lparr>headless = True, timeout = 30000, browser = Some 1, context' = Some 2,
      playwright = Some 0\<rparr>"

definition plain_page :: page_env where
  "plain_page =
     \<lparr>utcnow = ''2024-01-01T00:00:00'', reopen = engine_up, new_page = Inr 3,
      set_default_timeout = (\<lambda>t. Inr ()), goto = (\<lambda>u. Inr (Some 200)),
      page_url = ''https://example.com/'', wait_for_selector = (\<lambda>s. Inr ()),
      page_content = Inr ''<html></html>'', page_title = Inr ''Example'',
      query_selector_all = (\<lambda>s. Inr []), query_selector = (\<lambda>s. Inr None),
      page_close = Inr ()\<rparr>"

text \<open>A host that cannot be reached: the navigation raises.\<close>

definition unreachable_page :: page_env where
  "unreachable_page = plain_page\<lparr>goto := (\<lambda>u. Inl (Exception ''net::ERR_NAME_NOT_RESOLVED''))\<rparr>"

text \<open>An engine whose every teardown call raises.\<close>

definition teardown_fails :: close_env where
  "teardown_fails =
     \<lparr>context_close = Inl (Exception ''context closed''),
      browser_close = Inl (Exception ''browser closed''),
      playwright_stop = Inl (Exception ''driver stopped'')\<rparr>"

text \<open>Pages on which a later step fails after an earlier one has written to the result.\<close>

definition title_fails_page :: page_env where
  "title_fails_page = plain_page\<lparr>page_title := Inl (Exception ''Target closed'')\<rparr>"

definition selector_timeout_page :: page_env where
  "selector_timeout_page =
     plain_page\<lparr>page_url := ''https://example.com/landing'',
                wait_for_selector := (\<lambda>s. Inl (Exception ''Timeout 30000ms exceeded''))\<rparr>"

text \<open>Meta tags, and an element whose attribute reads raise.\<close>

definition meta_tag :: "string \<Rightarrow> string \<Rightarrow> element" where
  "meta_tag n c =
     (\<lambda>a. if a = ''name'' then Inr (Some n) else if a = ''content'' then Inr (Some c)
          else Inr None)"

definition detached :: element where
  "detached = (\<lambda>a. Inl (Exception ''Element is not attached to the DOM''))"

definition half_read_page :: page_env where
  "half_read_page =
     plain_page\<lparr>query_selector_all :=
       (\<lambda>s. Inr [meta_tag ''description'' ''Draft'', meta_tag ''description'' ''An example'',
                 detached])\<rparr>"

definition shadowed_page :: page_env where
  "shadowed_page =
     plain_page\<lparr>query_selector_all := (\<lambda>s. Inr [meta_tag ''extraction_error'' ''none'', detached])\<rparr>"

definition no_href_page :: page_env where
  "no_href_page =
     plain_page\<lparr>query_selector :=
       (\<lambda>s. if s = canonical_selector then Inr (Some (\<lambda>a. Inr None)) else Inr None)\<rparr>"

text \<open>Two tasks: the first page loads, the second host cannot be reached.\<close>

definition two_pages :: "nat \<Rightarrow> page_env" where
  "two_pages i = (if i = 0 then plain_page else unreachable_page)"

subsection \<open>Measures of a batch\<close>

text \<open>
  How far a task is (waiting, running, finished), and the sum over the tasks: each step of
  the event loop moves one task one phase on.
\<close>

fun rank :: "phase \<Rightarrow> nat" where
  "rank Waiting = 0"
| "rank Active = 1"
| "rank (Done r) = 2"
| "rank (Failed e) = 2"

definition progress :: "task list \<Rightarrow> nat" where
  "progress ts = sum_list (map (\<lambda>t. rank (snd t)) ts)"

text \<open>
  Every finished task holds the value \<open>scrape\<close> returns for its URL and its page, and none
  has raised.
\<close>

definition settled :: "(nat \<Rightarrow> page_env) \<Rightarrow> WebScraper \<Rightarrow> task list \<Rightarrow> bool" where
  "settled envs self ts =
     (\<forall>i<length ts.
        case ts ! i of
          (url, Done r) \<Rightarrow> fst (scrape (envs i) self [] url None) = Inr r
        | (url, Failed e) \<Rightarrow> False
        | (url, ph) \<Rightarrow> True)"

text \<open>Every value of a dictionary is a string, but for a \<open>None\<close> under the key canonical.\<close>

definition str_or_canonical :: "pydict \<Rightarrow> bool" where
  "str_or_canonical d =
     (\<forall>(k, v)\<in>set d. (\<exists>s. v = PyStr s) \<or> (k = ''canonical'' \<and> v = PyNone))"

subsection \<open>What the specification says of the meta tags\<close>

text \<open>
  Section 4.3 of the specification: of every meta element the name (or, if absent, the
  property) and the content are read; the pair is inserted when both are present; later
  duplicates overwrite earlier ones, in document order. These definitions follow that text,
  not the loop of \<open>_extract_metadata\<close>, and the loop is compared with them. The value an
  attribute read returned (\<open>None\<close> for a read that raised):
\<close>

fun read_attr :: "exn + string option \<Rightarrow> string option" where
  "read_attr (Inl e) = None"
| "read_attr (Inr v) = v"

text \<open>The three attribute reads of a tag return.\<close>

definition reads_ok :: "element \<Rightarrow> bool" where
  "reads_ok m = (\<not> isl (m ''name'') \<and> \<not> isl (m ''property'') \<and> \<not> isl (m ''content''))"

text \<open>
  The key a tag is recorded under, if any, and the value recorded: the name, or else the
  property, when it and the content are non-empty.
\<close>

definition tag_key :: "element \<Rightarrow> string option" where
  "tag_key m =
     (if truthy (read_attr (m ''name'')) \<and> truthy (read_attr (m ''content'')) then
        Some (text_of (read_attr (m ''name'')))
      else if truthy (read_attr (m ''property'')) \<and> truthy (read_attr (m ''content'')) then
        Some (text_of (read_attr (m ''property'')))
      else None)"

definition tag_value :: "element \<Rightarrow> pyval" where
  "tag_value m = PyStr (text_of (read_attr (m ''content'')))"

text \<open>Of the tags recorded under one key, the last in document order counts.\<close>

definition last_tag :: "element list \<Rightarrow> string \<Rightarrow> pyval option" where
  "last_tag ms k =
     (case filter (\<lambda>m. tag_key m = Some k) (rev ms) of
        [] \<Rightarrow> None
      | m # _ \<Rightarrow> Some (tag_value m))"

section \<open>Properties\<close>

subsection \<open>Dictionaries\<close>



lemma keys_setitem: "keys (setitem d k v) = (if k \<in> set (keys d) then keys d else keys d @ [k])"
  by (simp add: keys_def setitem_def update_keys)

lemma getitem_setitem: "getitem (setitem d k v) k' = (if k' = k then Some v else getitem d k')"
  by (simp add: getitem_def setitem_def update_conv')

lemma keys_setitem_mem: "k \<in> set (keys d) \<Longrightarrow> keys (setitem d k v) = keys d"
  by (simp add: keys_setitem)

lemma keys_new_result: "keys (new_result url ts) = result_keys"
  by (simp add: keys_def new_result_def result_keys_def)

lemma result_keys_mem:
  "''url'' \<in> set result_keys" "''html'' \<in> set result_keys" "''title'' \<in> set result_keys"
  "''meta'' \<in> set result_keys" "''status_code'' \<in> set result_keys"
  "''success'' \<in> set result_keys" "''error'' \<in> set result_keys"
  by (simp_all add: result_keys_def)

lemma getitem_new_result:
  "getitem (new_result url ts) ''url'' = Some (PyStr url)"
  "getitem (new_result url ts) ''html'' = Some PyNone"
  "getitem (new_result url ts) ''success'' = Some (PyBool False)"
  "getitem (new_result url ts) ''error'' = Some PyNone"
  "getitem (new_result url ts) ''meta'' = Some (PyDict [])"
  by (simp_all add: getitem_def new_result_def)

subsection \<open>The stages of scrape\<close>

lemma keys_extract_page:
  "keys r = result_keys \<Longrightarrow> keys (snd (extract_page env r)) = result_keys"
  by (simp add: extract_page_def Let_def keys_setitem_mem result_keys_mem split: sum.splits)

lemma exc_extract_page:
  "fst (extract_page env r) = None \<longleftrightarrow> \<not> isl (page_content env) \<and> \<not> isl (page_title env)"
  by (simp add: extract_page_def Let_def split: sum.splits)

lemma success_extract_page:
  "getitem (snd (extract_page env r)) ''success'' =
     (if fst (extract_page env r) = None then Some (PyBool True) else getitem r ''success'')"
  by (simp add: extract_page_def Let_def getitem_setitem split: sum.splits)

lemma error_extract_page:
  "getitem (snd (extract_page env r)) ''error'' = getitem r ''error''"
  by (simp add: extract_page_def Let_def getitem_setitem split: sum.splits)

lemma url_extract_page:
  "getitem (snd (extract_page env r)) ''url'' = getitem r ''url''"
  by (simp add: extract_page_def Let_def getitem_setitem split: sum.splits)

lemma html_extract_page:
  "getitem (snd (extract_page env r)) ''html'' =
     (case page_content env of Inl e \<Rightarrow> getitem r ''html'' | Inr h \<Rightarrow> Some (PyStr h))"
  by (simp add: extract_page_def Let_def getitem_setitem split: sum.splits)

lemma meta_extract_page:
  "getitem (snd (extract_page env r)) ''meta'' =
     (if fst (extract_page env r) = None then Some (PyDict (extract_metadata env))
      else getitem r ''meta'')"
  by (simp add: extract_page_def Let_def getitem_setitem split: sum.splits)

lemma keys_navigate:
  "keys r = result_keys \<Longrightarrow> keys (snd (navigate env url sel r)) = result_keys"
  by (simp add: navigate_def Let_def keys_setitem_mem result_keys_mem keys_extract_page
      split: sum.splits option.splits)

lemma exc_navigate:
  "fst (navigate env url sel r) = None \<longleftrightarrow>
     \<not> isl (goto env url) \<and> \<not> isl (wait_if env sel) \<and> \<not> isl (page_content env)
       \<and> \<not> isl (page_title env)"
  by (simp add: navigate_def Let_def exc_extract_page split: sum.splits)

lemma success_navigate:
  "getitem (snd (navigate env url sel r)) ''success'' =
     (if fst (navigate env url sel r) = None then Some (PyBool True) else getitem r ''success'')"
  by (simp add: navigate_def Let_def getitem_setitem success_extract_page
      split: sum.splits option.splits)

lemma error_navigate:
  "getitem (snd (navigate env url sel r)) ''error'' = getitem r ''error''"
  by (simp add: navigate_def Let_def getitem_setitem error_extract_page
      split: sum.splits option.splits)

lemma url_navigate:
  "getitem (snd (navigate env url sel r)) ''url'' =
     (case goto env url of
        Inl e \<Rightarrow> getitem r ''url''
      | Inr None \<Rightarrow> getitem r ''url''
      | Inr (Some status) \<Rightarrow> Some (PyStr (page_url env)))"
  by (simp add: navigate_def Let_def getitem_setitem url_extract_page
      split: sum.splits option.splits)

lemma html_navigate:
  "getitem (snd (navigate env url sel r)) ''html'' =
     (if isl (goto env url) \<or> isl (wait_if env sel) then getitem r ''html''
      else case page_content env of Inl e \<Rightarrow> getitem r ''html'' | Inr h \<Rightarrow> Some (PyStr h))"
  by (simp add: navigate_def Let_def getitem_setitem html_extract_page
      split: sum.splits option.splits)

lemma meta_navigate:
  "getitem (snd (navigate env url sel r)) ''meta'' =
     (if fst (navigate env url sel r) = None then Some (PyDict (extract_metadata env))
      else getitem r ''meta'')"
  by (simp add: navigate_def Let_def getitem_setitem meta_extract_page
      split: sum.splits option.splits)

lemma keys_scrape_try:
  "keys r = result_keys \<Longrightarrow> keys (fst (snd (scrape_try env self url sel r tr))) = result_keys"
  using keys_navigate [of r env url sel]
  by (auto simp add: scrape_try_def split: sum.splits option.splits prod.splits)

lemma exc_scrape_try:
  "context' self \<noteq> None \<Longrightarrow>
   fst (scrape_try env self url sel r tr) = None \<longleftrightarrow>
     \<not> isl (new_page env) \<and> \<not> isl (set_default_timeout env (timeout self))
       \<and> \<not> isl (goto env url) \<and> \<not> isl (wait_if env sel) \<and> \<not> isl (page_content env)
       \<and> \<not> isl (page_title env)"
  using exc_navigate [of env url sel r]
  by (auto simp add: scrape_try_def split: sum.splits option.splits prod.splits)

lemma success_scrape_try:
  "getitem (fst (snd (scrape_try env self url sel r tr))) ''success'' =
     (if fst (scrape_try env self url sel r tr) = None then Some (PyBool True)
      else getitem r ''success'')"
  using success_navigate [of env url sel r]
  by (auto simp add: scrape_try_def split: sum.splits option.splits prod.splits)

lemma error_scrape_try:
  "getitem (fst (snd (scrape_try env self url sel r tr))) ''error'' = getitem r ''error''"
  using error_navigate [of env url sel r]
  by (auto simp add: scrape_try_def split: sum.splits option.splits prod.splits)

lemma url_scrape_try:
  "getitem (fst (snd (scrape_try env self url sel r tr))) ''url'' =
     (if context' self = None \<or> isl (new_page env)
         \<or> isl (set_default_timeout env (timeout self)) then getitem r ''url''
      else case goto env url of
             Inl e \<Rightarrow> getitem r ''url''
           | Inr None \<Rightarrow> getitem r ''url''
           | Inr (Some status) \<Rightarrow> Some (PyStr (page_url env)))"
  using url_navigate [of env url sel r]
  by (auto simp add: scrape_try_def split: sum.splits option.splits prod.splits)

lemma html_scrape_try:
  "getitem (fst (snd (scrape_try env self url sel r tr))) ''html'' =
     (if context' self = None \<or> isl (new_page env)
         \<or> isl (set_default_timeout env (timeout self)) \<or> isl (goto env url)
         \<or> isl (wait_if env sel) then getitem r ''html''
      else case page_content env of Inl e \<Rightarrow> getitem r ''html'' | Inr h \<Rightarrow> Some (PyStr h))"
  using html_navigate [of env url sel r]
  by (auto simp add: scrape_try_def split: sum.splits option.splits prod.splits)

lemma meta_scrape_try:
  "getitem (fst (snd (scrape_try env self url sel r tr))) ''meta'' =
     (if fst (scrape_try env self url sel r tr) = None then Some (PyDict (extract_metadata env))
      else getitem r ''meta'')"
  using meta_navigate [of env url sel r]
  by (auto simp add: scrape_try_def split: sum.splits option.splits prod.splits)

lemma keys_handle_exc:
  "keys r = result_keys \<Longrightarrow> keys (handle_exc exc r) = result_keys"
  by (simp add: handle_exc_def keys_setitem_mem result_keys_mem split: option.splits)

lemma getitem_handle_exc:
  "getitem (handle_exc exc r) k =
     (case exc of
        None \<Rightarrow> getitem r k
      | Some e \<Rightarrow>
          if k = ''success'' then Some (PyBool False)
          else if k = ''error'' then Some (PyStr (str e))
          else getitem r k)"
  by (simp add: handle_exc_def getitem_setitem split: option.splits)

lemma finally_close_ok: "fst (finally_close env page tr) = Inr ()"
  by (simp add: finally_close_def suppress_def split: option.splits sum.splits)

lemma lazy_open_open:
  "browser self \<noteq> None \<Longrightarrow> context' self \<noteq> None \<Longrightarrow> lazy_open oe self tr = (Inr (), self, tr)"
  by (auto simp add: lazy_open_def)

lemma initialize_browser_Inr:
  "initialize_browser oe self tr = (Inr u, self1, tr1) \<Longrightarrow>
     browser self1 \<noteq> None \<and> context' self1 \<noteq> None \<and> playwright self1 \<noteq> None
       \<and> headless self1 = headless self \<and> timeout self1 = timeout self"
  by (auto simp add: initialize_browser_def Let_def split: sum.splits)

lemma initialize_browser_config:
  "headless (fst (snd (initialize_browser oe self tr))) = headless self
     \<and> timeout (fst (snd (initialize_browser oe self tr))) = timeout self"
  by (auto simp add: initialize_browser_def Let_def split: sum.splits)

lemma lazy_open_Inr:
  "lazy_open oe self tr = (Inr u, self1, tr1) \<Longrightarrow>
     browser self1 \<noteq> None \<and> context' self1 \<noteq> None
       \<and> headless self1 = headless self \<and> timeout self1 = timeout self"
  using initialize_browser_Inr [of oe self tr u self1 tr1]
  by (auto simp add: lazy_open_def split: if_splits)

lemma scrape_Inr:
  assumes "fst (scrape env self tr url sel) = Inr r"
  shows "\<exists>self1 tr1. context' self1 \<noteq> None \<and> timeout self1 = timeout self
           \<and> r = handle_exc (fst (scrape_try env self1 url sel (new_result url (utcnow env)) tr1))
                   (fst (snd (scrape_try env self1 url sel (new_result url (utcnow env)) tr1)))"
proof -
  obtain res self1 tr1 where lo: "lazy_open (reopen env) self tr = (res, self1, tr1)"
    by (metis prod_cases3)
  show ?thesis
  proof (cases res)
    case (Inl e)
    with lo assms show ?thesis by (simp add: scrape_def)
  next
    case (Inr u)
    with lo have ok: "context' self1 \<noteq> None" "timeout self1 = timeout self"
      using lazy_open_Inr [of "reopen env" self tr u self1 tr1] by simp_all
    obtain exc result1 page tr2
      where st: "scrape_try env self1 url sel (new_result url (utcnow env)) tr1
                   = (exc, result1, page, tr2)"
      by (metis prod_cases4)
    obtain fr tr3 where fc: "finally_close env page tr2 = (fr, tr3)"
      by (metis prod.exhaust)
    have "fr = Inr ()" using finally_close_ok [of env page tr2] fc by simp
    with lo Inr st fc assms have "r = handle_exc exc result1"
      by (simp add: scrape_def)
    with ok st show ?thesis by (metis fst_conv snd_conv)
  qed
qed

lemma scrape_open:
  assumes "browser self \<noteq> None" and "context' self \<noteq> None"
  shows "fst (scrape env self tr url sel) =
           Inr (handle_exc (fst (scrape_try env self url sel (new_result url (utcnow env)) tr))
                 (fst (snd (scrape_try env self url sel (new_result url (utcnow env)) tr))))
         \<and> fst (snd (scrape env self tr url sel)) = self"
proof -
  obtain exc result1 page tr2
    where st: "scrape_try env self url sel (new_result url (utcnow env)) tr
                 = (exc, result1, page, tr2)"
    by (metis prod_cases4)
  obtain fr tr3 where fc: "finally_close env page tr2 = (fr, tr3)"
    by (metis prod.exhaust)
  have "fr = Inr ()" using finally_close_ok [of env page tr2] fc by simp
  with st fc assms show ?thesis
    by (simp add: scrape_def lazy_open_open)
qed

lemma title_extract_page:
  "getitem (snd (extract_page env r)) ''title'' =
     (case page_content env of
        Inl e \<Rightarrow> getitem r ''title''
      | Inr h \<Rightarrow> (case page_title env of Inl e \<Rightarrow> getitem r ''title'' | Inr t \<Rightarrow> Some (PyStr t)))"
  by (simp add: extract_page_def Let_def getitem_setitem split: sum.splits)

lemma title_navigate:
  "getitem (snd (navigate env url sel r)) ''title'' =
     (if isl (goto env url) \<or> isl (wait_if env sel) then getitem r ''title''
      else case page_content env of
             Inl e \<Rightarrow> getitem r ''title''
           | Inr h \<Rightarrow> (case page_title env of Inl e \<Rightarrow> getitem r ''title'' | Inr t \<Rightarrow> Some (PyStr t)))"
  by (simp add: navigate_def Let_def getitem_setitem title_extract_page
      split: sum.splits option.splits)

lemma title_scrape_try:
  "getitem (fst (snd (scrape_try env self url sel r tr))) ''title'' =
     (if context' self = None \<or> isl (new_page env)
         \<or> isl (set_default_timeout env (timeout self)) \<or> isl (goto env url)
         \<or> isl (wait_if env sel) then getitem r ''title''
      else case page_content env of
             Inl e \<Rightarrow> getitem r ''title''
           | Inr h \<Rightarrow> (case page_title env of Inl e \<Rightarrow> getitem r ''title'' | Inr t \<Rightarrow> Some (PyStr t)))"
  using title_navigate [of env url sel r]
  by (auto simp add: scrape_try_def split: sum.splits option.splits prod.splits)

text \<open>The definitions that evaluate a call of \<open>scrape\<close> on a given page.\<close>

lemmas eval_defs = scrape_def lazy_open_def scrape_try_def navigate_def extract_page_def
  handle_exc_def finally_close_def suppress_def new_result_def setitem_def getitem_def
  extract_metadata_def extract_try_def canonical_link_def language_def store_tag_def
  open_scraper_def plain_page_def engine_up_def

subsection \<open>Closing a session\<close>

lemma close_result:
  "close ce self tr =
     (Inr (), self,
      tr @ (case context' self of None \<Rightarrow> [] | Some c \<Rightarrow> [CloseContext c])
         @ (case browser self of None \<Rightarrow> [] | Some b \<Rightarrow> [CloseBrowser b])
         @ (case playwright self of None \<Rightarrow> [] | Some p \<Rightarrow> [StopDriver p]))"
  by (simp add: close_def close_context_def close_browser_def stop_playwright_def
      suppress_def split: option.splits sum.splits)

lemma aexit_result: "aexit ce self tr r = r"
  by (simp add: aexit_def close_result)

text \<open>
  Claim C6. \<open>close\<close> returns normally and leaves the object as it is; the calls it makes are
  the close of the context, then of the browser, then the stop of the driver, each made when
  its attribute is set, whatever the earlier calls answered (returned or raised). Closing a
  second time, on the state the first close left, returns normally as well.
\<close>

theorem close_order:
  "close ce self tr =
     (Inr (), self,
      tr @ (case context' self of None \<Rightarrow> [] | Some c \<Rightarrow> [CloseContext c])
         @ (case browser self of None \<Rightarrow> [] | Some b \<Rightarrow> [CloseBrowser b])
         @ (case playwright self of None \<Rightarrow> [] | Some p \<Rightarrow> [StopDriver p]))
   \<and> fst (close ce2 (fst (snd (close ce self tr))) (snd (snd (close ce self tr)))) = Inr ()"
proof -
  have one: "close ce' s t =
     (Inr (), s,
      t @ (case context' s of None \<Rightarrow> [] | Some c \<Rightarrow> [CloseContext c])
        @ (case browser s of None \<Rightarrow> [] | Some b \<Rightarrow> [CloseBrowser b])
        @ (case playwright s of None \<Rightarrow> [] | Some p \<Rightarrow> [StopDriver p]))" for ce' s t
    by (simp add: close_def close_context_def close_browser_def stop_playwright_def
        suppress_def split: option.splits sum.splits)
  show ?thesis
    by (simp add: one)
qed

theorem close_order_witness:
  "close teardown_fails open_scraper [] =
     (Inr (), open_scraper, [CloseContext 2, CloseBrowser 1, StopDriver 0])
   \<and> fst (close teardown_fails open_scraper [CloseContext 2, CloseBrowser 1, StopDriver 0])
       = Inr ()"
  using close_order [of teardown_fails open_scraper "[]" teardown_fails]
  by (auto simp add: open_scraper_def)

subsection \<open>scrape on an open session\<close>

text \<open>
  Claim C3. On a session that is open (browser and context set), \<open>scrape\<close> returns a
  dictionary, for every URL, selector and answer of the engine; the dictionary has the eight
  keys url, html, title, meta, status_code, timestamp, success, error; and when the page
  creation, the timeout setting, the navigation, the selector wait, the content read or the
  title read raises, success is false and error is a string.
\<close>

theorem scrape_never_raises:
  assumes "browser self \<noteq> None" and "context' self \<noteq> None"
  shows "\<exists>r. fst (scrape env self tr url sel) = Inr r
           \<and> keys r = [''url'', ''html'', ''title'', ''meta'', ''status_code'', ''timestamp'',
                        ''success'', ''error'']
           \<and> (isl (new_page env) \<or> isl (set_default_timeout env (timeout self))
                \<or> isl (goto env url) \<or> isl (wait_if env sel) \<or> isl (page_content env)
                \<or> isl (page_title env) \<longrightarrow>
              getitem r ''success'' = Some (PyBool False)
                \<and> (\<exists>m. getitem r ''error'' = Some (PyStr m)))"
proof -
  let ?t = "scrape_try env self url sel (new_result url (utcnow env)) tr"
  let ?r = "handle_exc (fst ?t) (fst (snd ?t))"
  have ret: "fst (scrape env self tr url sel) = Inr ?r"
    using scrape_open [OF assms] by simp
  have "keys (fst (snd ?t)) = result_keys"
    by (simp add: keys_scrape_try keys_new_result)
  then have ks: "keys ?r = result_keys"
    by (rule keys_handle_exc)
  have fail: "getitem ?r ''success'' = Some (PyBool False)
                \<and> (\<exists>m. getitem ?r ''error'' = Some (PyStr m))"
    if "isl (new_page env) \<or> isl (set_default_timeout env (timeout self))
          \<or> isl (goto env url) \<or> isl (wait_if env sel) \<or> isl (page_content env)
          \<or> isl (page_title env)"
  proof -
    from that have "fst ?t \<noteq> None"
      using exc_scrape_try [OF assms(2), of env url sel "new_result url (utcnow env)" tr]
      by blast
    then obtain e where "fst ?t = Some e" by blast
    then show ?thesis by (simp add: getitem_handle_exc)
  qed
  from ret ks fail show ?thesis
    unfolding result_keys_def by blast
qed

theorem scrape_never_raises_witness:
  "browser open_scraper \<noteq> None \<and> context' open_scraper \<noteq> None
   \<and> isl (goto unreachable_page ''http://invalid.invalid'')
   \<and> (\<exists>r. fst (scrape unreachable_page open_scraper [] ''http://invalid.invalid'' None) = Inr r
         \<and> keys r = [''url'', ''html'', ''title'', ''meta'', ''status_code'', ''timestamp'',
                      ''success'', ''error'']
         \<and> getitem r ''success'' = Some (PyBool False)
         \<and> (\<exists>m. getitem r ''error'' = Some (PyStr m)))"
  using scrape_never_raises [of open_scraper unreachable_page "[]" "''http://invalid.invalid''" None]
  by (simp add: open_scraper_def unreachable_page_def plain_page_def)

text \<open>
  Claim C10. A call of \<open>scrape\<close> on an object whose browser and context are set returns with
  the object unchanged (headless, timeout, browser, context, playwright); whatever the state
  at entry, headless and timeout are unchanged, so the object differs afterwards only when
  browser or context was unset at entry.
\<close>

theorem scrape_frame:
  "(browser self \<noteq> None \<and> context' self \<noteq> None \<longrightarrow>
      fst (snd (scrape env self tr url sel)) = self)
   \<and> headless (fst (snd (scrape env self tr url sel))) = headless self
   \<and> timeout (fst (snd (scrape env self tr url sel))) = timeout self"
proof -
  obtain res self1 tr1 where lo: "lazy_open (reopen env) self tr = (res, self1, tr1)"
    by (metis prod_cases3)
  have cfg: "headless self1 = headless self \<and> timeout self1 = timeout self"
    using lo initialize_browser_config [of "reopen env" self tr]
    by (auto simp add: lazy_open_def split: if_splits)
  have "fst (snd (scrape env self tr url sel)) = self1"
    using lo by (simp add: scrape_def split: sum.splits prod.splits)
  with cfg show ?thesis
    using scrape_open [of self env tr url sel] by auto
qed

theorem scrape_frame_witness:
  "browser open_scraper \<noteq> None \<and> context' open_scraper \<noteq> None
   \<and> fst (snd (scrape plain_page open_scraper [] ''https://example.com'' None)) = open_scraper"
  using scrape_frame [of open_scraper plain_page "[]" "''https://example.com''" None]
  by (simp add: open_scraper_def)

subsection \<open>The fields of a returned result\<close>

lemma scrape_url_Inr:
  assumes "scrape_url oe env ce url h sel = Inr r"
  shows "\<exists>self tr. timeout self = 30000 \<and> fst (scrape env self tr url sel) = Inr r"
proof -
  obtain res self tr where ae: "aenter oe (init h 30000) [] = (res, self, tr)"
    by (metis prod_cases3)
  obtain r1 self1 tr1 where sc: "scrape env self tr url sel = (r1, self1, tr1)"
    by (metis prod_cases3)
  show ?thesis
  proof (cases res)
    case (Inl e)
    with ae assms show ?thesis by (simp add: scrape_url_def)
  next
    case (Inr u)
    with ae initialize_browser_Inr [of oe "init h 30000" "[]" u self tr]
    have tm: "timeout self = 30000" by (simp add: aenter_def init_def)
    from Inr ae sc assms have "r1 = Inr r"
      by (simp add: scrape_url_def aexit_result)
    with sc have "fst (scrape env self tr url sel) = Inr r" by simp
    with tm show ?thesis by blast
  qed
qed

lemma scrape_result_exact:
  assumes "fst (scrape env self tr url sel) = Inr r"
  shows "getitem r ''success'' =
           Some (PyBool (\<not> isl (new_page env) \<and> \<not> isl (set_default_timeout env (timeout self))
                         \<and> \<not> isl (goto env url) \<and> \<not> isl (wait_if env sel)
                         \<and> \<not> isl (page_content env) \<and> \<not> isl (page_title env)))"
    and "getitem r ''html'' =
           Some (if isl (new_page env) \<or> isl (set_default_timeout env (timeout self))
                    \<or> isl (goto env url) \<or> isl (wait_if env sel) then PyNone
                 else case page_content env of Inl e \<Rightarrow> PyNone | Inr h \<Rightarrow> PyStr h)"
    and "getitem r ''error'' = Some PyNone \<or> (\<exists>m. getitem r ''error'' = Some (PyStr m))"
    and "getitem r ''error'' = Some PyNone \<longleftrightarrow> getitem r ''success'' = Some (PyBool True)"
proof -
  from scrape_Inr [OF assms] obtain self1 tr1
    where ctx: "context' self1 \<noteq> None" and tm: "timeout self1 = timeout self"
      and r: "r = handle_exc (fst (scrape_try env self1 url sel (new_result url (utcnow env)) tr1))
                   (fst (snd (scrape_try env self1 url sel (new_result url (utcnow env)) tr1)))"
    by blast
  let ?t = "scrape_try env self1 url sel (new_result url (utcnow env)) tr1"
  let ?ok = "\<not> isl (new_page env) \<and> \<not> isl (set_default_timeout env (timeout self))
               \<and> \<not> isl (goto env url) \<and> \<not> isl (wait_if env sel)
               \<and> \<not> isl (page_content env) \<and> \<not> isl (page_title env)"
  from ctx obtain c where c: "context' self1 = Some c" by blast
  have exc: "fst ?t = None \<longleftrightarrow> ?ok"
    unfolding exc_scrape_try [OF ctx] tm by (rule refl)
  have html: "getitem (fst (snd ?t)) ''html'' =
     Some (if isl (new_page env) \<or> isl (set_default_timeout env (timeout self))
              \<or> isl (goto env url) \<or> isl (wait_if env sel) then PyNone
           else case page_content env of Inl e \<Rightarrow> PyNone | Inr h \<Rightarrow> PyStr h)"
    unfolding html_scrape_try tm using c
    by (simp add: getitem_new_result split: sum.splits)
  have rh: "getitem r ''html'' = getitem (fst (snd ?t)) ''html''"
    unfolding r by (simp add: getitem_handle_exc split: option.splits)
  from rh html show "getitem r ''html'' =
           Some (if isl (new_page env) \<or> isl (set_default_timeout env (timeout self))
                    \<or> isl (goto env url) \<or> isl (wait_if env sel) then PyNone
                 else case page_content env of Inl e \<Rightarrow> PyNone | Inr h \<Rightarrow> PyStr h)"
    by simp
  have s: "getitem r ''success'' = Some (PyBool (fst ?t = None))"
  proof (cases "fst ?t")
    case None
    then show ?thesis unfolding r by (simp add: getitem_handle_exc success_scrape_try)
  next
    case (Some e)
    then show ?thesis unfolding r by (simp add: getitem_handle_exc)
  qed
  with exc show "getitem r ''success'' = Some (PyBool ?ok)" by simp
  have e: "getitem r ''error'' = (case fst ?t of None \<Rightarrow> Some PyNone | Some e \<Rightarrow> Some (PyStr (str e)))"
    unfolding r by (simp add: getitem_handle_exc error_scrape_try getitem_new_result
        split: option.splits)
  from e show "getitem r ''error'' = Some PyNone \<or> (\<exists>m. getitem r ''error'' = Some (PyStr m))"
    by (cases "fst ?t") simp_all
  from e s show "getitem r ''error'' = Some PyNone \<longleftrightarrow> getitem r ''success'' = Some (PyBool True)"
    by (cases "fst ?t") simp_all
qed

text \<open>
  Claim C2, as amended. In every dictionary \<open>scrape\<close> or \<open>scrape_url\<close> returns, success
  is true or false. When it is true, html is the content read and error is \<open>None\<close>. When it
  is false, error is a string; html is \<open>None\<close> when the page creation, the timeout setting,
  the navigation, the selector wait or the content read raised; and html is the content
  read when those returned, in which case it is the title read that raised. So exactly one
  of "success with html" and "failure with error" holds. (\<open>t\<close> is the timeout of the
  session: that of the object for \<open>scrape\<close>, the default for \<open>scrape_url\<close>.)
\<close>

theorem scrape_result_invariant:
  assumes "(fst (scrape env self tr url sel) = Inr r \<and> t = timeout self)
           \<or> (scrape_url oe env ce url h sel = Inr r \<and> t = 30000)"
  shows "(getitem r ''success'' = Some (PyBool True) \<or> getitem r ''success'' = Some (PyBool False))
    \<and> getitem r ''html'' =
         Some (if isl (new_page env) \<or> isl (set_default_timeout env t)
                  \<or> isl (goto env url) \<or> isl (wait_if env sel) then PyNone
               else case page_content env of Inl e \<Rightarrow> PyNone | Inr c \<Rightarrow> PyStr c)
    \<and> (getitem r ''success'' = Some (PyBool True) \<longrightarrow>
         (\<exists>c. page_content env = Inr c \<and> getitem r ''html'' = Some (PyStr c))
         \<and> getitem r ''error'' = Some PyNone)
    \<and> (getitem r ''success'' = Some (PyBool False) \<longrightarrow>
         (\<exists>m. getitem r ''error'' = Some (PyStr m))
         \<and> (isl (new_page env) \<or> isl (set_default_timeout env t) \<or> isl (goto env url)
              \<or> isl (wait_if env sel) \<or> isl (page_content env) \<longrightarrow>
            getitem r ''html'' = Some PyNone)
         \<and> (\<forall>c. \<not> isl (new_page env) \<and> \<not> isl (set_default_timeout env t)
                \<and> \<not> isl (goto env url) \<and> \<not> isl (wait_if env sel)
                \<and> page_content env = Inr c \<longrightarrow>
              isl (page_title env) \<and> getitem r ''html'' = Some (PyStr c)))"
proof -
  from assms scrape_url_Inr [of oe env ce url h sel r]
  obtain self' tr' where ret: "fst (scrape env self' tr' url sel) = Inr r"
    and t: "timeout self' = t"
    by auto
  note ex = scrape_result_exact [OF ret, unfolded t]
  let ?early = "isl (new_page env) \<or> isl (set_default_timeout env t) \<or> isl (goto env url)
                  \<or> isl (wait_if env sel)"
  have a: "getitem r ''success'' = Some (PyBool True) \<or> getitem r ''success'' = Some (PyBool False)"
    using ex(1) by (cases "\<not> ?early \<and> \<not> isl (page_content env) \<and> \<not> isl (page_title env)") simp_all
  have b: "getitem r ''success'' = Some (PyBool True) \<longrightarrow>
         (\<exists>c. page_content env = Inr c \<and> getitem r ''html'' = Some (PyStr c))
         \<and> getitem r ''error'' = Some PyNone"
  proof
    assume st: "getitem r ''success'' = Some (PyBool True)"
    with ex(1) have ok: "\<not> ?early" "\<not> isl (page_content env)" by auto
    then obtain c where c: "page_content env = Inr c" by (cases "page_content env") simp_all
    from ex(2) ok c have "getitem r ''html'' = Some (PyStr c)" by simp
    with c st ex(4) show "(\<exists>c. page_content env = Inr c \<and> getitem r ''html'' = Some (PyStr c))
         \<and> getitem r ''error'' = Some PyNone" by simp
  qed
  have c: "getitem r ''success'' = Some (PyBool False) \<longrightarrow>
         (\<exists>m. getitem r ''error'' = Some (PyStr m))
         \<and> (?early \<or> isl (page_content env) \<longrightarrow> getitem r ''html'' = Some PyNone)
         \<and> (\<forall>c. \<not> isl (new_page env) \<and> \<not> isl (set_default_timeout env t)
                \<and> \<not> isl (goto env url) \<and> \<not> isl (wait_if env sel)
                \<and> page_content env = Inr c \<longrightarrow>
              isl (page_title env) \<and> getitem r ''html'' = Some (PyStr c))"
  proof
    assume sf: "getitem r ''success'' = Some (PyBool False)"
    with ex(4) ex(3) have e: "\<exists>m. getitem r ''error'' = Some (PyStr m)" by auto
    have h1: "?early \<or> isl (page_content env) \<longrightarrow> getitem r ''html'' = Some PyNone"
      using ex(2) by (cases "page_content env") auto
    have h2: "\<forall>c. \<not> isl (new_page env) \<and> \<not> isl (set_default_timeout env t)
                \<and> \<not> isl (goto env url) \<and> \<not> isl (wait_if env sel)
                \<and> page_content env = Inr c \<longrightarrow>
              isl (page_title env) \<and> getitem r ''html'' = Some (PyStr c)"
    proof (intro allI impI, elim conjE)
      fix c assume ok: "\<not> isl (new_page env)" "\<not> isl (set_default_timeout env t)"
        "\<not> isl (goto env url)" "\<not> isl (wait_if env sel)" and pc: "page_content env = Inr c"
      from ex(1) sf ok pc have "isl (page_title env)" by auto
      moreover from ex(2) ok pc have "getitem r ''html'' = Some (PyStr c)" by simp
      ultimately show "isl (page_title env) \<and> getitem r ''html'' = Some (PyStr c)" ..
    qed
    from e h1 h2 show "(\<exists>m. getitem r ''error'' = Some (PyStr m))
         \<and> (?early \<or> isl (page_content env) \<longrightarrow> getitem r ''html'' = Some PyNone)
         \<and> (\<forall>c. \<not> isl (new_page env) \<and> \<not> isl (set_default_timeout env t)
                \<and> \<not> isl (goto env url) \<and> \<not> isl (wait_if env sel)
                \<and> page_content env = Inr c \<longrightarrow>
              isl (page_title env) \<and> getitem r ''html'' = Some (PyStr c))"
      by (intro conjI)
  qed
  note c' = c [unfolded disj_assoc]
  show ?thesis
    by (rule conjI [OF a conjI [OF ex(2) conjI [OF b c']]])
qed

theorem scrape_result_invariant_witness:
  "(\<exists>r. fst (scrape plain_page open_scraper [] ''https://example.com'' None) = Inr r
        \<and> getitem r ''success'' = Some (PyBool True)
        \<and> getitem r ''html'' = Some (PyStr ''<html></html>'')
        \<and> getitem r ''error'' = Some PyNone)
   \<and> (\<exists>r. fst (scrape unreachable_page open_scraper [] ''http://invalid.invalid'' None) = Inr r
        \<and> getitem r ''success'' = Some (PyBool False)
        \<and> (\<exists>m. getitem r ''error'' = Some (PyStr m))
        \<and> getitem r ''html'' = Some PyNone)
   \<and> (\<exists>r. fst (scrape title_fails_page open_scraper [] ''https://example.com'' None) = Inr r
        \<and> getitem r ''success'' = Some (PyBool False)
        \<and> (\<exists>m. getitem r ''error'' = Some (PyStr m))
        \<and> getitem r ''html'' = Some (PyStr ''<html></html>''))
   \<and> (\<exists>r. scrape_url engine_up plain_page teardown_fails ''https://example.com'' True None
              = Inr r
        \<and> getitem r ''success'' = Some (PyBool True)
        \<and> getitem r ''html'' = Some (PyStr ''<html></html>'')
        \<and> getitem r ''error'' = Some PyNone)"
proof -
  let ?R1 = "[(''url'', PyStr ''https://example.com/''), (''html'', PyStr ''<html></html>''),
              (''title'', PyStr ''Example''), (''meta'', PyDict []), (''status_code'', PyInt 200),
              (''timestamp'', PyStr ''2024-01-01T00:00:00''), (''success'', PyBool True),
              (''error'', PyNone)]"
  let ?R2 = "[(''url'', PyStr ''http://invalid.invalid''), (''html'', PyNone),
              (''title'', PyNone), (''meta'', PyDict []), (''status_code'', PyNone),
              (''timestamp'', PyStr ''2024-01-01T00:00:00''), (''success'', PyBool False),
              (''error'', PyStr ''net::ERR_NAME_NOT_RESOLVED'')]"
  let ?R3 = "[(''url'', PyStr ''https://example.com/''), (''html'', PyStr ''<html></html>''),
              (''title'', PyNone), (''meta'', PyDict []), (''status_code'', PyInt 200),
              (''timestamp'', PyStr ''2024-01-01T00:00:00''), (''success'', PyBool False),
              (''error'', PyStr ''Target closed'')]"
  have ev1: "fst (scrape plain_page open_scraper [] ''https://example.com'' None) = Inr ?R1"
    by (simp add: eval_defs)
  have ev2: "fst (scrape unreachable_page open_scraper [] ''http://invalid.invalid'' None) = Inr ?R2"
    by (simp add: eval_defs unreachable_page_def)
  have ev3: "fst (scrape title_fails_page open_scraper [] ''https://example.com'' None) = Inr ?R3"
    by (simp add: eval_defs title_fails_page_def)
  have ev4: "scrape_url engine_up plain_page teardown_fails ''https://example.com'' True None
               = Inr ?R1"
    by (simp add: scrape_url_def aexit_result aenter_def initialize_browser_def init_def
        eval_defs)
  have s1: "getitem ?R1 ''success'' = Some (PyBool True)"
    by (simp add: getitem_def)
  have s2: "getitem ?R2 ''success'' = Some (PyBool False)"
    by (simp add: getitem_def)
  have s3: "getitem ?R3 ''success'' = Some (PyBool False)"
    by (simp add: getitem_def)
  note t1 = scrape_result_invariant [OF disjI1 [OF conjI [OF ev1 refl]]]
  note t2 = scrape_result_invariant [OF disjI1 [OF conjI [OF ev2 refl]]]
  note t3 = scrape_result_invariant [OF disjI1 [OF conjI [OF ev3 refl]]]
  note t4 = scrape_result_invariant [OF disjI2 [OF conjI [OF ev4 refl]]]
  have c1: "getitem ?R1 ''html'' = Some (PyStr ''<html></html>'')
              \<and> getitem ?R1 ''error'' = Some PyNone"
    using t1 [THEN conjunct2, THEN conjunct2, THEN conjunct1, rule_format, OF s1]
    by (simp add: plain_page_def)
  have c2: "(\<exists>m. getitem ?R2 ''error'' = Some (PyStr m)) \<and> getitem ?R2 ''html'' = Some PyNone"
    using t2 [THEN conjunct2, THEN conjunct2, THEN conjunct2, rule_format, OF s2]
    by (simp add: unreachable_page_def plain_page_def)
  have c3: "(\<exists>m. getitem ?R3 ''error'' = Some (PyStr m))
              \<and> getitem ?R3 ''html'' = Some (PyStr ''<html></html>'')"
    using t3 [THEN conjunct2, THEN conjunct2, THEN conjunct2, rule_format, OF s3]
    by (simp add: title_fails_page_def plain_page_def open_scraper_def)
  have c4: "getitem ?R1 ''html'' = Some (PyStr ''<html></html>'')
              \<and> getitem ?R1 ''error'' = Some PyNone"
    using t4 [THEN conjunct2, THEN conjunct2, THEN conjunct1, rule_format, OF s1]
    by (simp add: plain_page_def)
  from ev1 s1 c1 ev2 s2 c2 ev3 s3 c3 ev4 c4 show ?thesis by blast
qed

text \<open>
  The claim as stated fails: when the title read raises, the result is a failure whose html is
  the content already read.
\<close>

theorem failure_keeps_html:
  "fst (scrape title_fails_page open_scraper [] ''https://example.com'' None) =
     Inr [(''url'', PyStr ''https://example.com/''), (''html'', PyStr ''<html></html>''),
          (''title'', PyNone), (''meta'', PyDict []), (''status_code'', PyInt 200),
          (''timestamp'', PyStr ''2024-01-01T00:00:00''), (''success'', PyBool False),
          (''error'', PyStr ''Target closed'')]"
  by (simp add: eval_defs title_fails_page_def)

text \<open>
  Claim C7, as amended. The url of a returned result is the resolved URL of the page when the
  navigation returned a response object, whether or not the scrape then succeeds, and the
  input URL otherwise (the page creation, the timeout setting or the navigation raised, or
  the navigation returned no response).
\<close>

theorem scrape_url_field:
  assumes "fst (scrape env self tr url sel) = Inr r"
  shows "getitem r ''url'' =
           Some (PyStr (if \<not> isl (new_page env) \<and> \<not> isl (set_default_timeout env (timeout self))
                           \<and> (\<exists>status. goto env url = Inr (Some status))
                        then page_url env else url))"
proof -
  from scrape_Inr [OF assms] obtain self1 tr1
    where ctx: "context' self1 \<noteq> None" and tm: "timeout self1 = timeout self"
      and r: "r = handle_exc (fst (scrape_try env self1 url sel (new_result url (utcnow env)) tr1))
                   (fst (snd (scrape_try env self1 url sel (new_result url (utcnow env)) tr1)))"
    by blast
  let ?t = "scrape_try env self1 url sel (new_result url (utcnow env)) tr1"
  have "getitem r ''url'' = getitem (fst (snd ?t)) ''url''"
    using r by (simp add: getitem_handle_exc split: option.splits)
  then show ?thesis
    using ctx tm url_scrape_try [of env self1 url sel "new_result url (utcnow env)" tr1]
    by (auto simp add: getitem_new_result split: sum.splits option.splits)
qed

theorem scrape_url_field_witness:
  "(\<exists>r. fst (scrape plain_page open_scraper [] ''http://example.com'' None) = Inr r
        \<and> getitem r ''url'' = Some (PyStr ''https://example.com/''))
   \<and> (\<exists>r. fst (scrape unreachable_page open_scraper [] ''http://invalid.invalid'' None) = Inr r
        \<and> getitem r ''url'' = Some (PyStr ''http://invalid.invalid''))"
proof -
  let ?R1 = "[(''url'', PyStr ''https://example.com/''), (''html'', PyStr ''<html></html>''),
              (''title'', PyStr ''Example''), (''meta'', PyDict []), (''status_code'', PyInt 200),
              (''timestamp'', PyStr ''2024-01-01T00:00:00''), (''success'', PyBool True),
              (''error'', PyNone)]"
  let ?R2 = "[(''url'', PyStr ''http://invalid.invalid''), (''html'', PyNone),
              (''title'', PyNone), (''meta'', PyDict []), (''status_code'', PyNone),
              (''timestamp'', PyStr ''2024-01-01T00:00:00''), (''success'', PyBool False),
              (''error'', PyStr ''net::ERR_NAME_NOT_RESOLVED'')]"
  have ev1: "fst (scrape plain_page open_scraper [] ''http://example.com'' None) = Inr ?R1"
    by (simp add: eval_defs)
  have ev2: "fst (scrape unreachable_page open_scraper [] ''http://invalid.invalid'' None) = Inr ?R2"
    by (simp add: eval_defs unreachable_page_def)
  have u1: "getitem ?R1 ''url'' = Some (PyStr ''https://example.com/'')"
    using scrape_url_field [OF ev1] by (simp add: plain_page_def open_scraper_def)
  have u2: "getitem ?R2 ''url'' = Some (PyStr ''http://invalid.invalid'')"
    using scrape_url_field [OF ev2]
    by (simp add: unreachable_page_def plain_page_def open_scraper_def)
  from ev1 u1 ev2 u2 show ?thesis by blast
qed

text \<open>
  The claim as stated fails: a selector wait that times out after a redirected navigation
  gives a failure whose url is the resolved URL, not the input.
\<close>

theorem failure_keeps_final_url:
  "fst (scrape selector_timeout_page open_scraper [] ''http://example.com'' (Some ''h1'')) =
     Inr [(''url'', PyStr ''https://example.com/landing''), (''html'', PyNone),
          (''title'', PyNone), (''meta'', PyDict []), (''status_code'', PyInt 200),
          (''timestamp'', PyStr ''2024-01-01T00:00:00''), (''success'', PyBool False),
          (''error'', PyStr ''Timeout 30000ms exceeded'')]"
  by (simp add: eval_defs selector_timeout_page_def)

subsection \<open>Metadata\<close>

text \<open>
  The loop against the specification's tags: when every tag before a failing one is read,
  the dictionary at the failure holds, under each key, the last of those tags recorded under
  it.
\<close>

lemma last_tag_Nil: "last_tag [] k = None"
  by (simp add: last_tag_def)

lemma last_tag_Cons:
  "last_tag (m # ms) k =
     (case last_tag ms k of
        Some v \<Rightarrow> Some v
      | None \<Rightarrow> if tag_key m = Some k then Some (tag_value m) else None)"
  by (simp add: last_tag_def split: list.splits)

lemma getitem_store_tag:
  "getitem (store_tag (read_attr (m ''name'')) (read_attr (m ''property''))
              (read_attr (m ''content'')) d) k =
     (if tag_key m = Some k then Some (tag_value m) else getitem d k)"
  by (auto simp add: store_tag_def tag_key_def tag_value_def getitem_setitem)

lemma collect_tags_read:
  "reads_ok m \<Longrightarrow>
     collect_tags (m # ms) d =
       collect_tags ms (store_tag (read_attr (m ''name'')) (read_attr (m ''property''))
                          (read_attr (m ''content'')) d)"
  by (cases "m ''name''"; cases "m ''property''"; cases "m ''content''")
    (simp_all add: reads_ok_def)

lemma collect_tags_raise:
  "\<not> reads_ok m \<Longrightarrow> fst (collect_tags (m # ms) d) \<noteq> None \<and> snd (collect_tags (m # ms) d) = d"
  by (cases "m ''name''"; cases "m ''property''"; cases "m ''content''")
    (simp_all add: reads_ok_def)

lemma collect_tags_all_read:
  "\<forall>m\<in>set ms. reads_ok m \<Longrightarrow>
     fst (collect_tags ms d) = None
     \<and> getitem (snd (collect_tags ms d)) k =
         (case last_tag ms k of None \<Rightarrow> getitem d k | Some v \<Rightarrow> Some v)"
proof (induction ms arbitrary: d)
  case Nil
  then show ?case by (simp add: last_tag_Nil)
next
  case (Cons m ms)
  then have m: "reads_ok m" and ms: "\<forall>m\<in>set ms. reads_ok m" by simp_all
  let ?d = "store_tag (read_attr (m ''name'')) (read_attr (m ''property''))
              (read_attr (m ''content'')) d"
  from Cons.IH [OF ms, of ?d] collect_tags_read [OF m, of ms d]
  show ?case
    by (simp add: last_tag_Cons getitem_store_tag split: option.splits)
qed

lemma collect_tags_prefix:
  "\<forall>m\<in>set ms. reads_ok m \<Longrightarrow> \<not> reads_ok bad \<Longrightarrow>
     fst (collect_tags (ms @ bad # rest) d) \<noteq> None
     \<and> getitem (snd (collect_tags (ms @ bad # rest) d)) k =
         (case last_tag ms k of None \<Rightarrow> getitem d k | Some v \<Rightarrow> Some v)"
proof (induction ms arbitrary: d)
  case Nil
  with collect_tags_raise [of bad rest d] show ?case by (simp add: last_tag_Nil)
next
  case (Cons m ms)
  then have m: "reads_ok m" and ms: "\<forall>m\<in>set ms. reads_ok m" by simp_all
  let ?d = "store_tag (read_attr (m ''name'')) (read_attr (m ''property''))
              (read_attr (m ''content'')) d"
  from Cons.IH [OF ms Cons.prems(2), of ?d] collect_tags_read [OF m, of "ms @ bad # rest" d]
  show ?case
    by (simp add: last_tag_Cons getitem_store_tag split: option.splits)
qed

lemma getitem_canonical_link:
  "getitem (snd (canonical_link env d)) k =
     (if k = ''canonical'' then
        (case query_selector env canonical_selector of
           Inl e \<Rightarrow> getitem d k
         | Inr None \<Rightarrow> getitem d k
         | Inr (Some c) \<Rightarrow>
             (case c ''href'' of Inl e \<Rightarrow> getitem d k | Inr href \<Rightarrow> Some (opt_str href)))
      else getitem d k)"
  by (simp add: canonical_link_def getitem_setitem split: sum.splits option.splits)

lemma language_raise: "language env d = (Some e, d1) \<Longrightarrow> d1 = d"
  by (auto simp add: language_def split: sum.splits option.splits)

lemma collected_after_tags:
  assumes t: "extract_try env = (Some e, collected)"
    and q: "query_selector_all env ''meta'' = Inr ms"
    and ok: "\<forall>m\<in>set ms. reads_ok m"
  shows "getitem collected k =
     (if k = ''canonical'' then
        (case query_selector env canonical_selector of
           Inl e \<Rightarrow> last_tag ms k
         | Inr None \<Rightarrow> last_tag ms k
         | Inr (Some c) \<Rightarrow>
             (case c ''href'' of Inl e \<Rightarrow> last_tag ms k | Inr href \<Rightarrow> Some (opt_str href)))
      else last_tag ms k)"
proof -
  obtain e1 d1 where c: "collect_tags ms [] = (e1, d1)" by (cases "collect_tags ms []")
  have e1: "e1 = None" using collect_tags_all_read [OF ok, of "[]"] c by simp
  have d1: "getitem d1 k' = last_tag ms k'" for k'
    using collect_tags_all_read [OF ok, of "[]" k'] c
    by (simp add: getitem_def split: option.splits)
  obtain e2 d2 where cl: "canonical_link env d1 = (e2, d2)"
    by (cases "canonical_link env d1")
  have "collected = d2"
  proof (cases e2)
    case (Some x)
    with t q c e1 cl show ?thesis by (simp add: extract_try_def)
  next
    case None
    with t q c e1 cl have "language env d2 = (Some e, collected)"
      by (simp add: extract_try_def)
    then show ?thesis by (rule language_raise)
  qed
  with cl have "collected = snd (canonical_link env d1)" by simp
  then show ?thesis
    by (simp add: getitem_canonical_link d1 split: sum.splits option.splits)
qed

lemma collected_at_tag:
  assumes t: "extract_try env = (Some e, collected)"
    and q: "query_selector_all env ''meta'' = Inr (ms @ bad # rest)"
    and ok: "\<forall>m\<in>set ms. reads_ok m" and bad: "\<not> reads_ok bad"
  shows "getitem collected k = last_tag ms k"
proof -
  obtain e1 d1 where c: "collect_tags (ms @ bad # rest) [] = (e1, d1)"
    by (cases "collect_tags (ms @ bad # rest) []")
  from collect_tags_prefix [OF ok bad, of rest "[]" k] c
  have e1: "e1 \<noteq> None" and d1: "getitem d1 k = last_tag ms k"
    by (simp_all add: getitem_def split: option.splits)
  from e1 obtain x where "e1 = Some x" by blast
  with t q c have "collected = d1" by (simp add: extract_try_def)
  with d1 show ?thesis by simp
qed

lemma collected_no_tags:
  assumes t: "extract_try env = (Some e, collected)"
    and q: "isl (query_selector_all env ''meta'')"
  shows "collected = []"
  using t q by (cases "query_selector_all env ''meta''") (simp_all add: extract_try_def)

text \<open>
  Claim C8, as amended. When the \<open>try\<close> block of the extraction raises \<open>e\<close> with the dictionary
  \<open>collected\<close> so far, the returned dictionary maps extraction_error to the message of \<open>e\<close> and
  agrees with \<open>collected\<close> on every other key. What was collected is what the steps before
  the failure give: nothing when the query for the tags raised; when a read of a tag raised,
  for each key the last tag before that tag recorded under it; when a later step raised, the
  same over all tags, and for canonical the href when it had been read. And a scrape whose
  steps up to the title read returned is a success with that dictionary as meta, the html
  and the title.
\<close>

theorem extraction_failure_nonfatal:
  assumes "extract_try env = (Some e, collected)"
  shows "getitem (extract_metadata env) ''extraction_error'' = Some (PyStr (str e))
    \<and> (\<forall>k. k \<noteq> ''extraction_error'' \<longrightarrow>
           getitem (extract_metadata env) k = getitem collected k)
    \<and> (isl (query_selector_all env ''meta'') \<longrightarrow>
           extract_metadata env = [(''extraction_error'', PyStr (str e))])
    \<and> (\<forall>ms bad rest k.
          query_selector_all env ''meta'' = Inr (ms @ bad # rest) \<and> (\<forall>m\<in>set ms. reads_ok m)
            \<and> \<not> reads_ok bad \<and> k \<noteq> ''extraction_error'' \<longrightarrow>
          getitem (extract_metadata env) k = last_tag ms k)
    \<and> (\<forall>ms k.
          query_selector_all env ''meta'' = Inr ms \<and> (\<forall>m\<in>set ms. reads_ok m)
            \<and> k \<noteq> ''extraction_error'' \<longrightarrow>
          getitem (extract_metadata env) k =
            (if k = ''canonical'' then
               (case query_selector env canonical_selector of
                  Inl e \<Rightarrow> last_tag ms k
                | Inr None \<Rightarrow> last_tag ms k
                | Inr (Some c) \<Rightarrow>
                    (case c ''href'' of Inl e \<Rightarrow> last_tag ms k | Inr href \<Rightarrow> Some (opt_str href)))
             else last_tag ms k))
    \<and> (\<forall>self tr url sel r h t.
          fst (scrape env self tr url sel) = Inr r \<and> \<not> isl (new_page env)
            \<and> \<not> isl (set_default_timeout env (timeout self)) \<and> \<not> isl (goto env url)
            \<and> \<not> isl (wait_if env sel) \<and> page_content env = Inr h \<and> page_title env = Inr t \<longrightarrow>
          getitem r ''success'' = Some (PyBool True) \<and> getitem r ''html'' = Some (PyStr h)
            \<and> getitem r ''title'' = Some (PyStr t)
            \<and> getitem r ''meta'' = Some (PyDict (extract_metadata env)))"
proof -
  have md: "extract_metadata env = setitem collected ''extraction_error'' (PyStr (str e))"
    using assms by (simp add: extract_metadata_def)
  have a: "getitem (extract_metadata env) ''extraction_error'' = Some (PyStr (str e))"
    by (simp add: md getitem_setitem)
  have b: "\<forall>k. k \<noteq> ''extraction_error'' \<longrightarrow>
             getitem (extract_metadata env) k = getitem collected k"
    by (simp add: md getitem_setitem)
  have c: "\<forall>self tr url sel r h t.
          fst (scrape env self tr url sel) = Inr r \<and> \<not> isl (new_page env)
            \<and> \<not> isl (set_default_timeout env (timeout self)) \<and> \<not> isl (goto env url)
            \<and> \<not> isl (wait_if env sel) \<and> page_content env = Inr h \<and> page_title env = Inr t \<longrightarrow>
          getitem r ''success'' = Some (PyBool True) \<and> getitem r ''html'' = Some (PyStr h)
            \<and> getitem r ''title'' = Some (PyStr t)
            \<and> getitem r ''meta'' = Some (PyDict (extract_metadata env))"
  proof (intro allI impI, elim conjE)
    fix self tr url sel r h t
    assume ret: "fst (scrape env self tr url sel) = Inr r"
      and ok1: "\<not> isl (new_page env)"
      and ok2: "\<not> isl (set_default_timeout env (timeout self))"
      and ok3: "\<not> isl (goto env url)"
      and ok4: "\<not> isl (wait_if env sel)"
      and h: "page_content env = Inr h" and t: "page_title env = Inr t"
    from scrape_Inr [OF ret] obtain self1 tr1
      where ctx: "context' self1 \<noteq> None" and tm: "timeout self1 = timeout self"
        and r: "r = handle_exc
                  (fst (scrape_try env self1 url sel (new_result url (utcnow env)) tr1))
                  (fst (snd (scrape_try env self1 url sel (new_result url (utcnow env)) tr1)))"
      by blast
    let ?t = "scrape_try env self1 url sel (new_result url (utcnow env)) tr1"
    have ok2': "\<not> isl (set_default_timeout env (timeout self1))"
      using ok2 tm by simp
    have none: "fst ?t = None"
      unfolding exc_scrape_try [OF ctx] using ok1 ok2' ok3 ok4 h t by simp
    then have r': "r = fst (snd ?t)"
      using r by (simp add: handle_exc_def)
    have s1: "getitem r ''success'' = Some (PyBool True)"
      unfolding r' success_scrape_try using none by simp
    have s2: "getitem r ''meta'' = Some (PyDict (extract_metadata env))"
      unfolding r' meta_scrape_try using none by simp
    from ctx obtain c where nctx: "context' self1 = Some c"
      by blast
    have s3: "getitem r ''html'' = Some (PyStr h)"
      unfolding r' html_scrape_try using ok1 ok2' ok3 ok4 h nctx by simp
    have s4: "getitem r ''title'' = Some (PyStr t)"
      unfolding r' title_scrape_try using ok1 ok2' ok3 ok4 h t nctx by simp
    from s1 s3 s4 s2
    show "getitem r ''success'' = Some (PyBool True) \<and> getitem r ''html'' = Some (PyStr h)
            \<and> getitem r ''title'' = Some (PyStr t)
            \<and> getitem r ''meta'' = Some (PyDict (extract_metadata env))"
      by (intro conjI)
  qed
  have p0: "isl (query_selector_all env ''meta'') \<longrightarrow>
           extract_metadata env = [(''extraction_error'', PyStr (str e))]"
    using collected_no_tags [OF assms] md by (auto simp add: setitem_def)
  have p1: "\<forall>ms bad rest k.
          query_selector_all env ''meta'' = Inr (ms @ bad # rest) \<and> (\<forall>m\<in>set ms. reads_ok m)
            \<and> \<not> reads_ok bad \<and> k \<noteq> ''extraction_error'' \<longrightarrow>
          getitem (extract_metadata env) k = last_tag ms k"
  proof (intro allI impI, elim conjE)
    fix ms bad rest k
    assume "query_selector_all env ''meta'' = Inr (ms @ bad # rest)"
      and "\<forall>m\<in>set ms. reads_ok m" and "\<not> reads_ok bad" and k: "k \<noteq> ''extraction_error''"
    from collected_at_tag [OF assms this(1,2,3), of k] b k
    show "getitem (extract_metadata env) k = last_tag ms k" by simp
  qed
  have p2: "\<forall>ms k.
          query_selector_all env ''meta'' = Inr ms \<and> (\<forall>m\<in>set ms. reads_ok m)
            \<and> k \<noteq> ''extraction_error'' \<longrightarrow>
          getitem (extract_metadata env) k =
            (if k = ''canonical'' then
               (case query_selector env canonical_selector of
                  Inl e \<Rightarrow> last_tag ms k
                | Inr None \<Rightarrow> last_tag ms k
                | Inr (Some c) \<Rightarrow>
                    (case c ''href'' of Inl e \<Rightarrow> last_tag ms k | Inr href \<Rightarrow> Some (opt_str href)))
             else last_tag ms k)"
  proof (intro allI impI, elim conjE)
    fix ms k
    assume q: "query_selector_all env ''meta'' = Inr ms"
      and ok: "\<forall>m\<in>set ms. reads_ok m" and k: "k \<noteq> ''extraction_error''"
    from b k have "getitem (extract_metadata env) k = getitem collected k" by simp
    then show "getitem (extract_metadata env) k =
            (if k = ''canonical'' then
               (case query_selector env canonical_selector of
                  Inl e \<Rightarrow> last_tag ms k
                | Inr None \<Rightarrow> last_tag ms k
                | Inr (Some c) \<Rightarrow>
                    (case c ''href'' of Inl e \<Rightarrow> last_tag ms k | Inr href \<Rightarrow> Some (opt_str href)))
             else last_tag ms k)"
      by (simp only: collected_after_tags [OF assms q ok, of k])
  qed
  show ?thesis
    by (rule conjI [OF a conjI [OF b conjI [OF p0 conjI [OF p1 conjI [OF p2 c]]]]])
qed

theorem extraction_failure_nonfatal_witness:
  "extract_try half_read_page =
     (Some (Exception ''Element is not attached to the DOM''),
      [(''description'', PyStr ''An example'')])
   \<and> query_selector_all half_read_page ''meta'' =
       Inr ([meta_tag ''description'' ''Draft'', meta_tag ''description'' ''An example'']
            @ detached # [])
   \<and> reads_ok (meta_tag ''description'' ''Draft'')
   \<and> reads_ok (meta_tag ''description'' ''An example'') \<and> \<not> reads_ok detached
   \<and> getitem (extract_metadata half_read_page) ''extraction_error''
       = Some (PyStr ''Element is not attached to the DOM'')
   \<and> getitem (extract_metadata half_read_page) ''description'' = Some (PyStr ''An example'')
   \<and> (\<exists>r. fst (scrape half_read_page open_scraper [] ''https://example.com'' None) = Inr r
         \<and> getitem r ''success'' = Some (PyBool True)
         \<and> getitem r ''html'' = Some (PyStr ''<html></html>'')
         \<and> getitem r ''title'' = Some (PyStr ''Example'')
         \<and> getitem r ''meta'' = Some (PyDict (extract_metadata half_read_page)))"
proof -
  let ?R = "[(''url'', PyStr ''https://example.com/''), (''html'', PyStr ''<html></html>''),
            (''title'', PyStr ''Example''),
            (''meta'', PyDict [(''description'', PyStr ''An example''),
               (''extraction_error'', PyStr ''Element is not attached to the DOM'')]),
            (''status_code'', PyInt 200), (''timestamp'', PyStr ''2024-01-01T00:00:00''),
            (''success'', PyBool True), (''error'', PyNone)]"
  let ?ms = "[meta_tag ''description'' ''Draft'', meta_tag ''description'' ''An example'']"
  have ev: "extract_try half_read_page =
     (Some (Exception ''Element is not attached to the DOM''),
      [(''description'', PyStr ''An example'')])"
    by (simp add: eval_defs half_read_page_def meta_tag_def detached_def)
  have sc: "fst (scrape half_read_page open_scraper [] ''https://example.com'' None) = Inr ?R"
    by (simp add: eval_defs half_read_page_def meta_tag_def detached_def)
  have q: "query_selector_all half_read_page ''meta'' = Inr (?ms @ detached # [])"
    by (simp add: half_read_page_def)
  have ok1: "reads_ok (meta_tag ''description'' ''Draft'')"
    and ok2: "reads_ok (meta_tag ''description'' ''An example'')"
    by (simp_all add: reads_ok_def meta_tag_def)
  have bad: "\<not> reads_ok detached"
    by (simp add: reads_ok_def detached_def)
  have lt: "last_tag ?ms ''description'' = Some (PyStr ''An example'')"
    by (simp add: last_tag_def tag_key_def tag_value_def meta_tag_def)
  note th = extraction_failure_nonfatal [OF ev]
  have a: "getitem (extract_metadata half_read_page) ''extraction_error''
             = Some (PyStr ''Element is not attached to the DOM'')"
    using th [THEN conjunct1] by simp
  have "getitem (extract_metadata half_read_page) ''description'' = last_tag ?ms ''description''"
    using th [THEN conjunct2, THEN conjunct2, THEN conjunct2, THEN conjunct1, rule_format,
        of ?ms detached "[]" "''description''"] q ok1 ok2 bad
    by simp
  with lt have b: "getitem (extract_metadata half_read_page) ''description''
                     = Some (PyStr ''An example'')"
    by simp
  have pre: "\<not> isl (new_page half_read_page)"
    "\<not> isl (set_default_timeout half_read_page (timeout open_scraper))"
    "\<not> isl (goto half_read_page ''https://example.com'')"
    "\<not> isl (wait_if half_read_page None)"
    "page_content half_read_page = Inr ''<html></html>''"
    "page_title half_read_page = Inr ''Example''"
    by (simp_all add: half_read_page_def plain_page_def)
  have c: "getitem ?R ''success'' = Some (PyBool True)
         \<and> getitem ?R ''html'' = Some (PyStr ''<html></html>'')
         \<and> getitem ?R ''title'' = Some (PyStr ''Example'')
         \<and> getitem ?R ''meta'' = Some (PyDict (extract_metadata half_read_page))"
    using th [THEN conjunct2, THEN conjunct2, THEN conjunct2, THEN conjunct2, THEN conjunct2,
        rule_format,
        of open_scraper "[]" "''https://example.com''" None ?R "''<html></html>''" "''Example''"]
      sc pre
    by blast
  from ev q ok1 ok2 bad a b sc c show ?thesis by blast
qed

text \<open>
  The claim as stated fails for a pair collected under the key extraction_error itself (a
  meta tag of that name): the handler overwrites it.
\<close>

theorem extraction_error_overwrites:
  "extract_try shadowed_page =
     (Some (Exception ''Element is not attached to the DOM''),
      [(''extraction_error'', PyStr ''none'')])
   \<and> extract_metadata shadowed_page =
       [(''extraction_error'', PyStr ''Element is not attached to the DOM'')]"
  by (simp add: eval_defs shadowed_page_def meta_tag_def detached_def)

text \<open>
  The values of the metadata are strings, with one exception: the key canonical can hold
  \<open>None\<close>.
\<close>

lemma set_setitem: "set (setitem d k v) \<subseteq> insert (k, v) (set d)"
  unfolding setitem_def by (induction d) auto

lemma str_or_canonical_setitem:
  assumes "str_or_canonical d" and "(\<exists>s. v = PyStr s) \<or> (k = ''canonical'' \<and> v = PyNone)"
  shows "str_or_canonical (setitem d k v)"
  unfolding str_or_canonical_def
proof (rule ballI)
  fix p assume "p \<in> set (setitem d k v)"
  with set_setitem [of d k v] have "p = (k, v) \<or> p \<in> set d" by blast
  then show "case p of (k, v) \<Rightarrow> (\<exists>s. v = PyStr s) \<or> (k = ''canonical'' \<and> v = PyNone)"
  proof
    assume "p = (k, v)"
    with assms(2) show ?thesis by simp
  next
    assume "p \<in> set d"
    with assms(1) show ?thesis unfolding str_or_canonical_def by blast
  qed
qed

lemma str_or_canonical_store_tag:
  "str_or_canonical d \<Longrightarrow> str_or_canonical (store_tag n p c d)"
  by (simp add: store_tag_def str_or_canonical_setitem)

lemma str_or_canonical_collect_tags:
  "str_or_canonical d \<Longrightarrow> str_or_canonical (snd (collect_tags ms d))"
  by (induction ms arbitrary: d) (simp_all add: str_or_canonical_store_tag split: sum.splits)

lemma str_or_canonical_canonical_link:
  assumes d: "str_or_canonical d"
  shows "str_or_canonical (snd (canonical_link env d))"
proof (cases "query_selector env canonical_selector")
  case (Inl e)
  with d show ?thesis by (simp add: canonical_link_def)
next
  case q: (Inr el)
  show ?thesis
  proof (cases el)
    case None
    with q d show ?thesis by (simp add: canonical_link_def)
  next
    case (Some c)
    show ?thesis
    proof (cases "c ''href''")
      case (Inl e)
      with q Some d show ?thesis by (simp add: canonical_link_def)
    next
      case (Inr href)
      have "(\<exists>s. opt_str href = PyStr s) \<or> (''canonical'' = ''canonical'' \<and> opt_str href = PyNone)"
        by (cases href) simp_all
      from str_or_canonical_setitem [OF d this] q Some Inr show ?thesis
        by (simp add: canonical_link_def)
    qed
  qed
qed

lemma str_or_canonical_language:
  assumes d: "str_or_canonical d"
  shows "str_or_canonical (snd (language env d))"
proof (cases "query_selector env ''html''")
  case (Inl e)
  with d show ?thesis by (simp add: language_def)
next
  case q: (Inr el)
  show ?thesis
  proof (cases el)
    case None
    with q d show ?thesis by (simp add: language_def)
  next
    case (Some c)
    show ?thesis
    proof (cases "c ''lang''")
      case (Inl e)
      with q Some d show ?thesis by (simp add: language_def)
    next
      case (Inr lang)
      have "str_or_canonical (setitem d ''language'' (PyStr (text_of lang)))"
        by (rule str_or_canonical_setitem [OF d]) simp
      with q Some Inr d show ?thesis
        by (simp add: language_def)
    qed
  qed
qed

lemma str_or_canonical_extract_try: "str_or_canonical (snd (extract_try env))"
proof (cases "query_selector_all env ''meta''")
  case (Inl e)
  then show ?thesis by (simp add: extract_try_def str_or_canonical_def)
next
  case q: (Inr tags)
  have e: "str_or_canonical []" by (simp add: str_or_canonical_def)
  obtain e1 d1 where c: "collect_tags tags [] = (e1, d1)" by (cases "collect_tags tags []")
  have d1: "str_or_canonical d1"
    using str_or_canonical_collect_tags [OF e, of tags] c by simp
  show ?thesis
  proof (cases e1)
    case (Some x)
    with q c d1 show ?thesis by (simp add: extract_try_def)
  next
    case n1: None
    obtain e2 d2 where cl: "canonical_link env d1 = (e2, d2)"
      by (cases "canonical_link env d1")
    have d2: "str_or_canonical d2"
      using str_or_canonical_canonical_link [OF d1, of env] cl by simp
    show ?thesis
    proof (cases e2)
      case (Some x)
      with q c n1 cl d2 show ?thesis by (simp add: extract_try_def)
    next
      case None
      with q c n1 cl str_or_canonical_language [OF d2, of env] show ?thesis
        by (simp add: extract_try_def)
    qed
  qed
qed

lemma meta_values:
  assumes "(k, v) \<in> set (extract_metadata env)"
  shows "(\<exists>s. v = PyStr s) \<or> (k = ''canonical'' \<and> v = PyNone)"
proof -
  obtain exc d where t: "extract_try env = (exc, d)" by (cases "extract_try env")
  have d: "str_or_canonical d"
    using str_or_canonical_extract_try [of env] t by simp
  have "str_or_canonical (extract_metadata env)"
  proof (cases exc)
    case None
    with t d show ?thesis by (simp add: extract_metadata_def)
  next
    case (Some e)
    have "str_or_canonical (setitem d ''extraction_error'' (PyStr (str e)))"
      by (rule str_or_canonical_setitem [OF d]) simp
    with t Some show ?thesis by (simp add: extract_metadata_def)
  qed
  with assms show ?thesis
    unfolding str_or_canonical_def by blast
qed

text \<open>
  Claim C9. A canonical link without an href attribute is recorded as
  \<open>meta['canonical'] = None\<close>: the attribute read is stored unchecked, where the language and
  the meta tags are stored only when they are non-empty strings.
\<close>

theorem canonical_without_href:
  "extract_metadata no_href_page = [(''canonical'', PyNone)]
   \<and> fst (scrape no_href_page open_scraper [] ''https://example.com'' None) =
       Inr [(''url'', PyStr ''https://example.com/''), (''html'', PyStr ''<html></html>''),
            (''title'', PyStr ''Example''), (''meta'', PyDict [(''canonical'', PyNone)]),
            (''status_code'', PyInt 200), (''timestamp'', PyStr ''2024-01-01T00:00:00''),
            (''success'', PyBool True), (''error'', PyNone)]"
  by (simp add: eval_defs no_href_page_def canonical_selector_def)

subsection \<open>Opening a session\<close>

text \<open>
  Claim C5, as amended. The guarded open at the start of \<open>scrape\<close> is idempotent: on an
  object whose browser and context are set it makes no engine call and changes nothing, and
  that is the case after any \<open>__aenter__\<close> and after any guarded open that returned.
\<close>

theorem lazy_open_idempotent:
  "(browser self \<noteq> None \<and> context' self \<noteq> None \<longrightarrow> lazy_open oe self tr = (Inr (), self, tr))
   \<and> (aenter oe0 self0 tr0 = (Inr (), self1, tr1) \<longrightarrow>
        lazy_open oe self1 tr1 = (Inr (), self1, tr1))
   \<and> (lazy_open oe0 self0 tr0 = (Inr (), self1, tr1) \<longrightarrow>
        lazy_open oe self1 tr1 = (Inr (), self1, tr1))"
  using initialize_browser_Inr [of oe0 self0 tr0 "()" self1 tr1]
    lazy_open_Inr [of oe0 self0 tr0 "()" self1 tr1]
  by (auto simp add: aenter_def lazy_open_open)

theorem lazy_open_idempotent_witness:
  "aenter engine_up (init True 30000) [] =
     (Inr (),
      \<lparr>headless = True, timeout = 30000, browser = Some 11, context' = Some 12,
       playwright = Some 10\<rparr>,
      [StartDriver, Launch 10 True, NewContext 11])
   \<and> lazy_open engine_up
       \<lparr>headless = True, timeout = 30000, browser = Some 11, context' = Some 12,
        playwright = Some 10\<rparr>
       [StartDriver, Launch 10 True, NewContext 11] =
      (Inr (),
       \<lparr>headless = True, timeout = 30000, browser = Some 11, context' = Some 12,
        playwright = Some 10\<rparr>,
       [StartDriver, Launch 10 True, NewContext 11])"
  using lazy_open_idempotent [of _ engine_up _ engine_up "init True 30000" "[]"
      "\<lparr>headless = True, timeout = 30000, browser = Some 11, context' = Some 12,
        playwright = Some 10\<rparr>" "[StartDriver, Launch 10 True, NewContext 11]"]
  by (simp add: aenter_def initialize_browser_def engine_up_def init_def)

text \<open>
  The claim as stated fails: \<open>__aenter__\<close> on an open session starts a driver, launches a
  browser and replaces the three handles.
\<close>

theorem aenter_relaunches:
  "aenter engine_up open_scraper [] =
     (Inr (),
      \<lparr>headless = True, timeout = 30000, browser = Some 11, context' = Some 12,
       playwright = Some 10\<rparr>,
      [StartDriver, Launch 10 True, NewContext 11])"
  by (simp add: aenter_def initialize_browser_def engine_up_def open_scraper_def)

subsection \<open>The batch\<close>

lemma count_active_update:
  "i < length ts \<Longrightarrow>
   count_active (ts[i := t]) + (if snd (ts ! i) = Active then 1 else 0)
     = count_active ts + (if snd t = Active then 1 else 0)"
proof (induction ts arbitrary: i)
  case Nil
  then show ?case by simp
next
  case (Cons a ts)
  show ?case
  proof (cases i)
    case 0
    then show ?thesis by (simp add: count_active_def)
  next
    case (Suc j)
    with Cons.prems have "j < length ts" by simp
    from Cons.IH [OF this] Suc show ?thesis by (simp add: count_active_def)
  qed
qed

lemma progress_update:
  "i < length ts \<Longrightarrow>
   progress (ts[i := t]) + rank (snd (ts ! i)) = progress ts + rank (snd t)"
proof (induction ts arbitrary: i)
  case Nil
  then show ?case by simp
next
  case (Cons a ts)
  show ?case
  proof (cases i)
    case 0
    then show ?thesis by (simp add: progress_def)
  next
    case (Suc j)
    with Cons.prems have "j < length ts" by simp
    from Cons.IH [OF this] Suc show ?thesis by (simp add: progress_def)
  qed
qed

lemma progress_le: "progress ts \<le> 2 * length ts"
proof (induction ts)
  case Nil
  then show ?case by (simp add: progress_def)
next
  case (Cons a ts)
  have "rank (snd a) \<le> 2" by (cases "snd a") simp_all
  with Cons show ?case by (simp add: progress_def)
qed

text \<open>The shape of a step.\<close>

lemma step_SomeE:
  assumes "step envs i b = Some b1"
  obtains (acquire) url where "i < length (tasks b)" "tasks b ! i = (url, Waiting)"
      "0 < permits b"
      "b1 = b\<lparr>permits := permits b - 1, tasks := (tasks b)[i := (url, Active)]\<rparr>"
  | (fail) url e scraper1 tr1 where "i < length (tasks b)" "tasks b ! i = (url, Active)"
      "scrape (envs i) (scraper b) (calls b) url None = (Inl e, scraper1, tr1)"
      "b1 = b\<lparr>scraper := scraper1, permits := permits b + 1,
                tasks := (tasks b)[i := (url, Failed e)],
                raised := (case raised b of None \<Rightarrow> Some e | Some e0 \<Rightarrow> Some e0),
                calls := tr1\<rparr>"
  | (finish) url r scraper1 tr1 where "i < length (tasks b)" "tasks b ! i = (url, Active)"
      "scrape (envs i) (scraper b) (calls b) url None = (Inr r, scraper1, tr1)"
      "b1 = b\<lparr>scraper := scraper1, permits := permits b + 1,
                tasks := (tasks b)[i := (url, Done r)], calls := tr1\<rparr>"
proof -
  from assms have len: "i < length (tasks b)"
    by (simp add: step_def split: if_splits)
  obtain url ph where t: "tasks b ! i = (url, ph)"
    by (cases "tasks b ! i") blast
  show ?thesis
  proof (cases ph)
    case Waiting
    with assms len t show ?thesis
      by (intro acquire [of url]) (simp_all add: step_def split: if_splits)
  next
    case Active
    obtain res scraper1 tr1
      where sc: "scrape (envs i) (scraper b) (calls b) url None = (res, scraper1, tr1)"
      by (metis prod_cases3)
    show ?thesis
    proof (cases res)
      case (Inl e)
      with assms len t Active sc show ?thesis
        by (intro fail [of url e scraper1 tr1]) (simp_all add: step_def)
    next
      case (Inr r)
      with assms len t Active sc show ?thesis
        by (intro finish [of url r scraper1 tr1]) (simp_all add: step_def)
    qed
  next
    case (Done r)
    with assms len t show ?thesis by (simp add: step_def)
  next
    case (Failed e)
    with assms len t show ?thesis by (simp add: step_def)
  qed
qed

lemma step_permits:
  assumes "step envs i b = Some b1"
  shows "permits b1 + count_active (tasks b1) = permits b + count_active (tasks b)"
  using assms
proof (cases rule: step_SomeE)
  case (acquire url)
  with count_active_update [of i "tasks b" "(url, Active)"] show ?thesis by simp
next
  case (fail url e scraper1 tr1)
  with count_active_update [of i "tasks b" "(url, Failed e)"] show ?thesis by simp
next
  case (finish url r scraper1 tr1)
  with count_active_update [of i "tasks b" "(url, Done r)"] show ?thesis by simp
qed

lemma step_progress:
  assumes "step envs i b = Some b1"
  shows "progress (tasks b1) = Suc (progress (tasks b))"
  using assms
proof (cases rule: step_SomeE)
  case (acquire url)
  with progress_update [of i "tasks b" "(url, Active)"] show ?thesis by simp
next
  case (fail url e scraper1 tr1)
  with progress_update [of i "tasks b" "(url, Failed e)"] show ?thesis by simp
next
  case (finish url r scraper1 tr1)
  with progress_update [of i "tasks b" "(url, Done r)"] show ?thesis by simp
qed

lemma step_urls:
  assumes "step envs i b = Some b1"
  shows "map fst (tasks b1) = map fst (tasks b)"
  using assms
proof (cases rule: step_SomeE)
  case (acquire url)
  then show ?thesis by (simp add: map_update list_update_same_conv)
next
  case (fail url e scraper1 tr1)
  then show ?thesis by (simp add: map_update list_update_same_conv)
next
  case (finish url r scraper1 tr1)
  then show ?thesis by (simp add: map_update list_update_same_conv)
qed

lemma run_permits:
  "run envs sched b = Some b1 \<Longrightarrow>
     permits b1 + count_active (tasks b1) = permits b + count_active (tasks b)"
proof (induction sched arbitrary: b)
  case Nil
  then show ?case by simp
next
  case (Cons i sched)
  then obtain b2 where s: "step envs i b = Some b2" and r: "run envs sched b2 = Some b1"
    by (auto split: option.splits)
  from Cons.IH [OF r] step_permits [OF s] show ?case by simp
qed

lemma run_progress:
  "run envs sched b = Some b1 \<Longrightarrow> progress (tasks b1) = progress (tasks b) + length sched"
proof (induction sched arbitrary: b)
  case Nil
  then show ?case by simp
next
  case (Cons i sched)
  then obtain b2 where s: "step envs i b = Some b2" and r: "run envs sched b2 = Some b1"
    by (auto split: option.splits)
  from Cons.IH [OF r] step_progress [OF s] show ?case by simp
qed

lemma run_urls:
  "run envs sched b = Some b1 \<Longrightarrow> map fst (tasks b1) = map fst (tasks b)"
proof (induction sched arbitrary: b)
  case Nil
  then show ?case by simp
next
  case (Cons i sched)
  then obtain b2 where s: "step envs i b = Some b2" and r: "run envs sched b2 = Some b1"
    by (auto split: option.splits)
  from Cons.IH [OF r] step_urls [OF s] show ?case by simp
qed

lemma count_active_start: "count_active (map (\<lambda>url. (url, Waiting)) urls) = 0"
  by (induction urls) (simp_all add: count_active_def)

lemma progress_start: "progress (map (\<lambda>url. (url, Waiting)) urls) = 0"
  by (induction urls) (simp_all add: progress_def)

lemma scrape_try_trace:
  "fst (scrape_try env self url sel r tr) = fst (scrape_try env self url sel r tr')
   \<and> fst (snd (scrape_try env self url sel r tr)) = fst (snd (scrape_try env self url sel r tr'))"
  by (simp add: scrape_try_def split: option.splits sum.splits prod.splits)

lemma scrape_result_trace:
  assumes "browser self \<noteq> None" and "context' self \<noteq> None"
  shows "fst (scrape env self tr url sel) = fst (scrape env self tr' url sel)"
  using scrape_open [OF assms, of env tr url sel] scrape_open [OF assms, of env tr' url sel]
    scrape_try_trace [of env self url sel "new_result url (utcnow env)" tr tr']
  by simp

lemma step_settled:
  assumes st: "step envs i b = Some b1"
    and op: "browser self \<noteq> None" "context' self \<noteq> None"
    and sc: "scraper b = self" and ra: "raised b = None"
    and se: "settled envs self (tasks b)"
  shows "scraper b1 = self \<and> raised b1 = None \<and> settled envs self (tasks b1)"
  using st
proof (cases rule: step_SomeE)
  case (acquire url)
  have "settled envs self ((tasks b)[i := (url, Active)])"
    unfolding settled_def
  proof (intro allI impI)
    fix j assume "j < length ((tasks b)[i := (url, Active)])"
    then have j: "j < length (tasks b)" by simp
    show "case (tasks b)[i := (url, Active)] ! j of
            (url, Done r) \<Rightarrow> fst (scrape (envs j) self [] url None) = Inr r
          | (url, Failed e) \<Rightarrow> False
          | (url, ph) \<Rightarrow> True"
    proof (cases "j = i")
      case True
      with j show ?thesis by simp
    next
      case False
      with se j show ?thesis by (simp add: settled_def)
    qed
  qed
  with acquire sc ra show ?thesis by simp
next
  case (fail url e scraper1 tr1)
  with scrape_open [OF op, of "envs i" "calls b" url None] sc show ?thesis by simp
next
  case (finish url r scraper1 tr1)
  from finish(3) scrape_open [OF op, of "envs i" "calls b" url None] sc
  have s1: "scraper1 = self" and res: "fst (scrape (envs i) self (calls b) url None) = Inr r"
    by simp_all
  from res scrape_result_trace [OF op, of "envs i" "calls b" url None "[]"]
  have res': "fst (scrape (envs i) self [] url None) = Inr r" by simp
  have "settled envs self ((tasks b)[i := (url, Done r)])"
    unfolding settled_def
  proof (intro allI impI)
    fix j assume "j < length ((tasks b)[i := (url, Done r)])"
    then have j: "j < length (tasks b)" by simp
    show "case (tasks b)[i := (url, Done r)] ! j of
            (url, Done r) \<Rightarrow> fst (scrape (envs j) self [] url None) = Inr r
          | (url, Failed e) \<Rightarrow> False
          | (url, ph) \<Rightarrow> True"
    proof (cases "j = i")
      case True
      with j res' show ?thesis by simp
    next
      case False
      with se j show ?thesis by (simp add: settled_def)
    qed
  qed
  with finish s1 ra show ?thesis by simp
qed

lemma run_settled:
  assumes op: "browser self \<noteq> None" "context' self \<noteq> None"
  shows "run envs sched b = Some b1 \<Longrightarrow> scraper b = self \<Longrightarrow> raised b = None \<Longrightarrow>
         settled envs self (tasks b) \<Longrightarrow>
         scraper b1 = self \<and> raised b1 = None \<and> settled envs self (tasks b1)"
proof (induction sched arbitrary: b)
  case Nil
  then show ?case by simp
next
  case (Cons i sched)
  from Cons.prems(1) obtain b2
    where s: "step envs i b = Some b2" and r: "run envs sched b2 = Some b1"
    by (auto split: option.splits)
  from step_settled [OF s op Cons.prems(2,3,4)]
  have "scraper b2 = self" "raised b2 = None" "settled envs self (tasks b2)" by simp_all
  from Cons.IH [OF r this] show ?case .
qed

lemma settled_start: "settled envs self (map (\<lambda>url. (url, Waiting)) urls)"
  by (simp add: settled_def)

lemma those_results:
  "those (map result_of ts) = Some rs \<Longrightarrow>
     length rs = length ts \<and> (\<forall>i<length ts. ts ! i = (fst (ts ! i), Done (rs ! i)))"
proof (induction ts arbitrary: rs)
  case Nil
  then show ?case by simp
next
  case (Cons t ts)
  obtain url ph where t: "t = (url, ph)" by (cases t)
  from Cons.prems t obtain r rs' where ph: "ph = Done r"
    and rest: "those (map result_of ts) = Some rs'" and rs: "rs = r # rs'"
    by (cases ph) (auto split: option.splits)
  from Cons.IH [OF rest] have len: "length rs' = length ts"
    and nth: "\<forall>i<length ts. ts ! i = (fst (ts ! i), Done (rs' ! i))" by simp_all
  show ?case
  proof (intro conjI allI impI)
    show "length rs = length (t # ts)" using len rs by simp
  next
    fix i assume "i < length (t # ts)"
    then show "(t # ts) ! i = (fst ((t # ts) ! i), Done (rs ! i))"
      using nth t ph rs by (cases i) simp_all
  qed
qed

lemma progress_full:
  "progress ts = 2 * length ts \<Longrightarrow> \<forall>t\<in>set ts. rank (snd t) = 2"
proof (induction ts)
  case Nil
  then show ?case by simp
next
  case (Cons a ts)
  have a: "rank (snd a) \<le> 2" by (cases "snd a") simp_all
  have p: "progress (a # ts) = rank (snd a) + progress ts" by (simp add: progress_def)
  from Cons.prems p a progress_le [of ts]
  have "rank (snd a) = 2" and "progress ts = 2 * length ts" by simp_all
  with Cons.IH show ?case by simp
qed

lemma those_all_done:
  "\<forall>t\<in>set ts. \<exists>url r. t = (url, Done r) \<Longrightarrow> \<exists>rs. those (map result_of ts) = Some rs"
  by (induction ts) auto

lemma finished_gather:
  assumes "progress ts = 2 * length ts" and "settled envs self ts"
  shows "\<exists>rs. those (map result_of ts) = Some rs"
proof (rule those_all_done, rule ballI)
  fix t assume t: "t \<in> set ts"
  then obtain i where i: "i < length ts" "ts ! i = t" by (auto simp add: in_set_conv_nth)
  from progress_full [OF assms(1)] t have r: "rank (snd t) = 2" by simp
  obtain url ph where tp: "t = (url, ph)" by (cases t)
  from assms(2) i tp have "\<forall>e. ph \<noteq> Failed e"
    by (auto simp add: settled_def)
  with r tp show "\<exists>url r. t = (url, Done r)" by (cases ph) simp_all
qed

lemma progress_all_two:
  "\<forall>i<length ts. rank (snd (ts ! i)) = 2 \<Longrightarrow> progress ts = 2 * length ts"
proof (induction ts)
  case Nil
  then show ?case by (simp add: progress_def)
next
  case (Cons a ts)
  from Cons.prems have "rank (snd a) = 2" by auto
  moreover from Cons.prems have "\<forall>i<length ts. rank (snd (ts ! i)) = 2" by auto
  ultimately show ?case using Cons.IH by (simp add: progress_def)
qed

lemma count_active_zero:
  "\<forall>i<length ts. snd (ts ! i) \<noteq> Active \<Longrightarrow> count_active ts = 0"
proof -
  assume a: "\<forall>i<length ts. snd (ts ! i) \<noteq> Active"
  have "snd t \<noteq> Active" if "t \<in> set ts" for t
  proof -
    from that obtain i where "i < length ts" "ts ! i = t"
      by (auto simp add: in_set_conv_nth)
    with a show ?thesis by blast
  qed
  then show ?thesis
    by (simp add: count_active_def filter_empty_conv)
qed

lemma can_step:
  assumes less: "progress (tasks b) < 2 * length (tasks b)"
    and perm: "0 < permits b + count_active (tasks b)"
    and nofail: "\<forall>i<length (tasks b). \<forall>e. snd (tasks b ! i) \<noteq> Failed e"
  shows "\<exists>i<length (tasks b). step envs i b \<noteq> None"
proof (cases "\<exists>j<length (tasks b). snd (tasks b ! j) = Active")
  case True
  then obtain j where j: "j < length (tasks b)" "snd (tasks b ! j) = Active" by blast
  then have "step envs j b \<noteq> None"
    by (cases "tasks b ! j") (simp add: step_def split: prod.splits sum.splits)
  with j show ?thesis by blast
next
  case False
  then have "count_active (tasks b) = 0" by (intro count_active_zero) blast
  with perm have p: "0 < permits b" by simp
  from less progress_all_two [of "tasks b"]
  obtain i where i: "i < length (tasks b)" "rank (snd (tasks b ! i)) \<noteq> 2" by auto
  with False nofail have "snd (tasks b ! i) = Waiting"
    by (cases "snd (tasks b ! i)") auto
  with i p have "step envs i b \<noteq> None"
    by (cases "tasks b ! i") (simp add: step_def)
  with i show ?thesis by blast
qed

lemma batch_unfold:
  assumes "aenter oe (init h 30000) [] = (Inr (), self, tr)" and "0 \<le> max_concurrent"
  shows "scrape_urls_batch oe envs ce sched urls h max_concurrent =
           (case run envs sched (start_batch self tr urls (nat max_concurrent)) of
              None \<Rightarrow> None
            | Some b \<Rightarrow> gather b)"
  using assms
  by (simp add: scrape_urls_batch_def aexit_result split: option.splits)

lemma aenter_open:
  assumes "aenter oe self0 tr0 = (Inr (), self, tr)"
  shows "browser self \<noteq> None" and "context' self \<noteq> None"
  using initialize_browser_Inr [of oe self0 tr0 "()" self tr] assms
  by (simp_all add: aenter_def)

lemma run_start_facts:
  assumes op: "browser self \<noteq> None" "context' self \<noteq> None"
    and run: "run envs sched (start_batch self tr urls k) = Some b"
  shows "scraper b = self" and "raised b = None" and "settled envs self (tasks b)"
    and "map fst (tasks b) = urls" and "length (tasks b) = length urls"
    and "progress (tasks b) = length sched" and "permits b + count_active (tasks b) = k"
proof -
  let ?b0 = "start_batch self tr urls k"
  have "scraper ?b0 = self" "raised ?b0 = None" "settled envs self (tasks ?b0)"
    by (simp_all add: start_batch_def settled_start)
  from run_settled [OF op run this]
  show "scraper b = self" and "raised b = None" and "settled envs self (tasks b)"
    by simp_all
  from run_urls [OF run] show u: "map fst (tasks b) = urls"
    by (simp add: start_batch_def comp_def)
  from arg_cong [OF u, of length] show "length (tasks b) = length urls" by simp
  from run_progress [OF run] show "progress (tasks b) = length sched"
    by (simp add: start_batch_def progress_start)
  from run_permits [OF run] show "permits b + count_active (tasks b) = k"
    by (simp add: start_batch_def count_active_start)
qed

lemma gather_in_order:
  assumes op: "browser self \<noteq> None" "context' self \<noteq> None"
    and run: "run envs sched (start_batch self tr urls k) = Some b"
    and g: "gather b = Some x"
  shows "\<exists>rs. x = Inr rs \<and> length rs = length urls
           \<and> (\<forall>i<length urls. \<forall>tr'. fst (scrape (envs i) self tr' (urls ! i) None) = Inr (rs ! i))"
proof -
  note f = run_start_facts [OF op run]
  from g f(2) obtain rs where x: "x = Inr rs" and th: "those (map result_of (tasks b)) = Some rs"
    by (auto simp add: gather_def)
  from those_results [OF th] have len: "length rs = length (tasks b)"
    and nth: "\<forall>i<length (tasks b). tasks b ! i = (fst (tasks b ! i), Done (rs ! i))"
    by simp_all
  have "fst (scrape (envs i) self tr' (urls ! i) None) = Inr (rs ! i)"
    if i: "i < length urls" for i tr'
  proof -
    from i f(5) have i': "i < length (tasks b)" by simp
    from f(4) i' have u: "fst (tasks b ! i) = urls ! i"
      by (metis nth_map)
    from nth i' have "tasks b ! i = (fst (tasks b ! i), Done (rs ! i))" by blast
    with u have t: "tasks b ! i = (urls ! i, Done (rs ! i))" by metis
    from f(3) i' t have "fst (scrape (envs i) self [] (urls ! i) None) = Inr (rs ! i)"
      by (auto simp add: settled_def)
    with scrape_result_trace [OF op, of "envs i" tr' "urls ! i" None "[]"]
    show ?thesis by simp
  qed
  with x len f(5) show ?thesis by simp
qed

text \<open>
  Claim C4. In every state the batch reaches, under every schedule, the number of tasks that
  hold the semaphore (the tasks inside \<open>scraper.scrape\<close>, where the page is opened and closed)
  plus the counter of the semaphore is the limit, so at most the limit are active; and when
  that many are active, a waiting task cannot move.
\<close>

theorem batch_concurrency_cap:
  assumes "run envs sched (start_batch self tr urls k) = Some b"
  shows "count_active (tasks b) + permits b = k \<and> count_active (tasks b) \<le> k
    \<and> (\<forall>i. count_active (tasks b) = k \<and> i < length (tasks b) \<and> snd (tasks b ! i) = Waiting \<longrightarrow>
          step envs i b = None)"
proof -
  have eq: "permits b + count_active (tasks b) = k"
    using run_permits [OF assms] by (simp add: start_batch_def count_active_start)
  have blocked: "step envs i b = None"
    if "count_active (tasks b) = k" "i < length (tasks b)" "snd (tasks b ! i) = Waiting" for i
  proof -
    from that(1) eq have "permits b = 0" by simp
    with that(2,3) show ?thesis
      by (cases "tasks b ! i") (simp add: step_def)
  qed
  from eq blocked show ?thesis by auto
qed

theorem batch_concurrency_cap_witness:
  "run two_pages [0] (start_batch open_scraper [] [''https://example.com'', ''http://invalid.invalid''] 1)
     = Some \<lparr>scraper = open_scraper, permits = 0,
             tasks = [(''https://example.com'', Active), (''http://invalid.invalid'', Waiting)],
             raised = None, calls = []\<rparr>
   \<and> count_active [(''https://example.com'', Active), (''http://invalid.invalid'', Waiting)] = 1
   \<and> step two_pages 1
        \<lparr>scraper = open_scraper, permits = 0,
         tasks = [(''https://example.com'', Active), (''http://invalid.invalid'', Waiting)],
         raised = None, calls = []\<rparr> = None"
proof -
  let ?B = "\<lparr>scraper = open_scraper, permits = 0,
             tasks = [(''https://example.com'', Active), (''http://invalid.invalid'', Waiting)],
             raised = None, calls = []\<rparr>"
  have ev: "run two_pages [0]
              (start_batch open_scraper [] [''https://example.com'', ''http://invalid.invalid''] 1)
            = Some ?B"
    by (simp add: step_def start_batch_def)
  have ca: "count_active (tasks ?B) = 1"
    by (simp add: count_active_def)
  from batch_concurrency_cap [OF ev, THEN conjunct2, THEN conjunct2, rule_format, of 1] ca
  have "step two_pages 1 ?B = None" by simp
  with ev ca show ?thesis by simp
qed

text \<open>
  Claim C1. When the session opens and the limit is at least 1: whatever the schedule, a
  batch that has returned has returned, without raising, a list as long as the list of URLs
  whose \<open>i\<close>-th element is the value \<open>scrape\<close> returns for the \<open>i\<close>-th URL on the \<open>i\<close>-th page;
  and the batch does return: an execution has at most two steps for each URL, can go on
  while it has fewer, and has returned when it has that many.
\<close>

theorem batch_results_in_order:
  assumes "aenter oe (init h 30000) [] = (Inr (), self, tr)" and "1 \<le> max_concurrent"
  shows "(\<forall>sched. scrape_urls_batch oe envs ce sched urls h max_concurrent \<noteq> None \<longrightarrow>
            (\<exists>rs. scrape_urls_batch oe envs ce sched urls h max_concurrent = Some (Inr rs)
               \<and> length rs = length urls
               \<and> (\<forall>i<length urls. \<forall>tr'.
                     fst (scrape (envs i) self tr' (urls ! i) None) = Inr (rs ! i))))
    \<and> (\<forall>sched b. run envs sched (start_batch self tr urls (nat max_concurrent)) = Some b \<longrightarrow>
          length sched \<le> 2 * length urls
          \<and> (length sched < 2 * length urls \<longrightarrow> (\<exists>i<length urls. step envs i b \<noteq> None))
          \<and> (length sched = 2 * length urls \<longrightarrow>
                scrape_urls_batch oe envs ce sched urls h max_concurrent \<noteq> None))"
proof -
  note op = aenter_open [OF assms(1)]
  from assms(2) have nn: "0 \<le> max_concurrent" by simp
  note unf = batch_unfold [OF assms(1) nn, of envs ce _ urls]
  let ?k = "nat max_concurrent"
  have part1: "\<exists>rs. scrape_urls_batch oe envs ce sched urls h max_concurrent = Some (Inr rs)
               \<and> length rs = length urls
               \<and> (\<forall>i<length urls. \<forall>tr'.
                     fst (scrape (envs i) self tr' (urls ! i) None) = Inr (rs ! i))"
    if ret: "scrape_urls_batch oe envs ce sched urls h max_concurrent \<noteq> None" for sched
  proof -
    from ret unf [of sched] obtain b x
      where run: "run envs sched (start_batch self tr urls ?k) = Some b"
        and g: "gather b = Some x"
      by (auto split: option.splits)
    from run g unf [of sched]
    have "scrape_urls_batch oe envs ce sched urls h max_concurrent = Some x" by simp
    with gather_in_order [OF op run g] show ?thesis by auto
  qed
  have part2: "length sched \<le> 2 * length urls
          \<and> (length sched < 2 * length urls \<longrightarrow> (\<exists>i<length urls. step envs i b \<noteq> None))
          \<and> (length sched = 2 * length urls \<longrightarrow>
                scrape_urls_batch oe envs ce sched urls h max_concurrent \<noteq> None)"
    if run: "run envs sched (start_batch self tr urls ?k) = Some b" for sched b
  proof -
    note f = run_start_facts [OF op run]
    have le: "length sched \<le> 2 * length urls"
      using progress_le [of "tasks b"] f(5,6) by simp
    have nofail: "\<forall>i<length (tasks b). \<forall>e. snd (tasks b ! i) \<noteq> Failed e"
    proof (intro allI impI)
      fix i e assume "i < length (tasks b)"
      with f(3) show "snd (tasks b ! i) \<noteq> Failed e"
        by (cases "tasks b ! i") (auto simp add: settled_def)
    qed
    have stepc: "\<exists>i<length urls. step envs i b \<noteq> None" if "length sched < 2 * length urls"
    proof -
      from that f(5,6) have "progress (tasks b) < 2 * length (tasks b)" by simp
      moreover from f(7) assms(2) have "0 < permits b + count_active (tasks b)" by simp
      ultimately show ?thesis
        using can_step [OF _ _ nofail, of envs] f(5) by simp
    qed
    have fin: "scrape_urls_batch oe envs ce sched urls h max_concurrent \<noteq> None"
      if "length sched = 2 * length urls"
    proof -
      from that f(5,6) have "progress (tasks b) = 2 * length (tasks b)" by simp
      from finished_gather [OF this f(3)] obtain rs
        where "those (map result_of (tasks b)) = Some rs" by blast
      with f(2) have "gather b = Some (Inr rs)" by (simp add: gather_def)
      with run unf [of sched] show ?thesis by simp
    qed
    from le stepc fin show ?thesis by blast
  qed
  from part1 part2 show ?thesis by blast
qed

theorem batch_results_in_order_witness:
  "aenter engine_up (init True 30000) [] =
     (Inr (),
      \<lparr>headless = True, timeout = 30000, browser = Some 11, context' = Some 12,
       playwright = Some 10\<rparr>,
      [StartDriver, Launch 10 True, NewContext 11])
   \<and> (1::int) \<le> 2
   \<and> scrape_urls_batch engine_up two_pages teardown_fails [0, 1, 1, 0]
        [''https://example.com'', ''http://invalid.invalid''] True 2 =
       Some (Inr
         [[(''url'', PyStr ''https://example.com/''), (''html'', PyStr ''<html></html>''),
           (''title'', PyStr ''Example''), (''meta'', PyDict []), (''status_code'', PyInt 200),
           (''timestamp'', PyStr ''2024-01-01T00:00:00''), (''success'', PyBool True),
           (''error'', PyNone)],
          [(''url'', PyStr ''http://invalid.invalid''), (''html'', PyNone),
           (''title'', PyNone), (''meta'', PyDict []), (''status_code'', PyNone),
           (''timestamp'', PyStr ''2024-01-01T00:00:00''), (''success'', PyBool False),
           (''error'', PyStr ''net::ERR_NAME_NOT_RESOLVED'')]])"
proof -
  let ?S = "\<lparr>headless = True, timeout = 30000, browser = Some 11, context' = Some 12,
       playwright = Some 10\<rparr>"
  let ?T = "[StartDriver, Launch 10 True, NewContext 11]"
  let ?urls = "[''https://example.com'', ''http://invalid.invalid'']"
  let ?R1 = "[(''url'', PyStr ''https://example.com/''), (''html'', PyStr ''<html></html>''),
           (''title'', PyStr ''Example''), (''meta'', PyDict []), (''status_code'', PyInt 200),
           (''timestamp'', PyStr ''2024-01-01T00:00:00''), (''success'', PyBool True),
           (''error'', PyNone)]"
  let ?R2 = "[(''url'', PyStr ''http://invalid.invalid''), (''html'', PyNone),
           (''title'', PyNone), (''meta'', PyDict []), (''status_code'', PyNone),
           (''timestamp'', PyStr ''2024-01-01T00:00:00''), (''success'', PyBool False),
           (''error'', PyStr ''net::ERR_NAME_NOT_RESOLVED'')]"
  have ae: "aenter engine_up (init True 30000) [] = (Inr (), ?S, ?T)"
    by (simp add: aenter_def initialize_browser_def engine_up_def init_def)
  have k: "(1::int) \<le> 2" by simp
  note th = batch_results_in_order [OF ae k, of two_pages teardown_fails ?urls]
  have s0: "fst (scrape (two_pages 0) ?S [] (?urls ! 0) None) = Inr ?R1"
    by (simp add: two_pages_def eval_defs)
  have s1: "fst (scrape (two_pages 1) ?S [] (?urls ! 1) None) = Inr ?R2"
    by (simp add: two_pages_def eval_defs unreachable_page_def)
  have r: "run two_pages [0, 1, 1, 0] (start_batch ?S ?T ?urls (nat 2)) \<noteq> None"
    by (simp add: step_def start_batch_def scrape_open split: prod.splits sum.splits)
  then obtain b where rb: "run two_pages [0, 1, 1, 0] (start_batch ?S ?T ?urls (nat 2)) = Some b"
    by blast
  from th [THEN conjunct2, rule_format, OF rb]
  have "scrape_urls_batch engine_up two_pages teardown_fails [0, 1, 1, 0] ?urls True 2 \<noteq> None"
    by simp
  from th [THEN conjunct1, rule_format, OF this] obtain rs
    where out: "scrape_urls_batch engine_up two_pages teardown_fails [0, 1, 1, 0] ?urls True 2
                  = Some (Inr rs)"
      and len: "length rs = 2"
      and nth: "\<forall>i<2. \<forall>tr'. fst (scrape (two_pages i) ?S tr' (?urls ! i) None) = Inr (rs ! i)"
    by auto
  from nth [rule_format, of 0 "[]"] s0 have r0: "rs ! 0 = ?R1" by simp
  from nth [rule_format, of 1 "[]"] s1 have r1: "rs ! 1 = ?R2" by simp
  from len obtain x y where xy: "rs = [x, y]"
    by (metis (no_types) One_nat_def Suc_1 length_0_conv length_Suc_conv)
  with r0 r1 have "rs = [?R1, ?R2]" by simp
  with ae out show ?thesis by simp
qed

end
